theory Spec2Isabelle
  imports Complex_Main "HOL-Library.AList" "HOL-Library.Sublist"
begin

section \<open>The simulator of tensorflow-large-model-support\<close>

text \<open>
  A shallow embedding of \<^verbatim>\<open>simulator.py\<close> (class \<^verbatim>\<open>Simulator\<close>).

  The graph-analysis object \<^verbatim>\<open>lms\<close> is not part of the file: its members that the
  simulator aliases in \<^verbatim>\<open>__init__\<close> are fields of the record \<open>env\<close>, together with the
  simulator's own fields that no method of the run changes (\<^verbatim>\<open>_plot\<close>, \<^verbatim>\<open>_max_mem\<close>,
  \<^verbatim>\<open>_swapout_delay\<close>). An operation is identified by its name (names are unique in a
  TensorFlow graph), so a tensor's consumers and the exclusion sets are lists of names.
  \<^verbatim>\<open>_ts_size(ts)\<close> calls \<^verbatim>\<open>util.get_tensor_size\<close>, which is not in the file either: the
  size is the field \<open>t_size\<close> of a tensor.

  Python dictionaries keep insertion order, and \<^verbatim>\<open>_is_swapin_tensor\<close> and \<^verbatim>\<open>_gc\<close> depend
  on it: \<^verbatim>\<open>_mem\<close> and \<^verbatim>\<open>_ref_counts\<close> are association lists (\<open>AList.update\<close> overwrites in
  place or appends, \<open>AList.delete\<close> removes). A Python set is a list without duplicates,
  iterated in one fixed order. Sizes and counters are Python integers, \<open>int\<close> here.

  \<^verbatim>\<open>_max_mem\<close> is a float (\<^verbatim>\<open>_initialize\<close> multiplies the byte limit by \<^verbatim>\<open>_ratio\<close>): its
  value is a real number, integral or not. \<^verbatim>\<open>_get_free_mem\<close> subtracts the integer
  \<^verbatim>\<open>_used_mem\<close> from it in floating point, which rounds above \<open>2^53\<close>; that
  subtraction is the field \<open>float_sub\<close> of \<open>env\<close>, any function, so that nothing
  proved here depends on how it rounds. The test \<^verbatim>\<open>ts_size >= self._get_free_mem()\<close>
  compares a Python integer with a float, which Python does exactly.
\<close>

subsection \<open>Data\<close>

record tensor =
  t_name :: string
  t_size :: int
  t_ndims :: "nat option"
  t_consumers :: "string list"

record op =
  op_name :: string
  op_inputs :: "tensor list"
  op_outputs :: "tensor list"

type_synonym ts_info = "string \<times> int \<times> int"

record env =
  plot :: bool
  max_mem :: real
  float_sub :: "real \<Rightarrow> int \<Rightarrow> real"
  swapout_delay :: int
  topo_size :: nat
  get_ops_by_level :: "nat \<Rightarrow> op list"
  excl_src_ops :: "string list"
  excl_dest_ops :: "string list"
  distance :: "string \<Rightarrow> string \<Rightarrow> int"
  get_level :: "string \<Rightarrow> int"
  get_earliest_op :: "string list \<Rightarrow> string"
  groupby :: "string list \<Rightarrow> int \<Rightarrow> string list list"

datatype error = KeyError string | UnboundLocalError string

text \<open>
  What the run sends out, in call order: every \<^verbatim>\<open>_log_info\<close> message and the call of
  \<^verbatim>\<open>_generate_diagram\<close>. (\<^verbatim>\<open>AvailableMemory\<close> carries no number: the source formats the
  bound method \<^verbatim>\<open>self._get_free_mem\<close>, not its value.)
\<close>

datatype event =
    Simulating int int int
  | SimulateLevel nat
  | SwappedIn nat string
  | ExecuteOp nat string
  | OOM string int int real
  | Allocated int string int real
  | Released int string int real
  | SwappedOut nat string
  | AvailableMemory nat
  | GenerateDiagram int int int
  | SwappedOutTotal nat

text \<open>The mutable fields of \<^verbatim>\<open>self\<close>; \<open>events\<close> collects what has been sent out.\<close>

record sim =
  mem :: "(string \<times> int) list"
  used_mem :: int
  mem_traces :: "int list"
  ref_counts :: "(string \<times> int) list"
  events :: "event list"

text \<open>
  The local variables of \<^verbatim>\<open>play\<close> that live across iterations. \<open>ts_size\<close> is the local
  variable of that name: it is bound by the tuple unpacking of the swap-in loop and by
  the swap-out section, and read when a missing input is allocated; \<open>None\<close> while unbound.
\<close>

record play_state = sim +
  swapouts :: "string list"
  swapins :: "int \<Rightarrow> ts_info list option"
  passed :: bool
  ts_size :: "int option"

text \<open>
  A statement either falls through to the next one, leaves \<^verbatim>\<open>play\<close> by \<^verbatim>\<open>return passed\<close>,
  or raises; the state reached so far is kept in each case.
\<close>

datatype 'a res = Next 'a | Return 'a | Raise error 'a

primrec for_each :: "('x \<Rightarrow> 's \<Rightarrow> 's res) \<Rightarrow> 'x list \<Rightarrow> 's \<Rightarrow> 's res" where
  "for_each f [] s = Next s"
| "for_each f (x # xs) s =
     (case f x s of
        Next s' \<Rightarrow> for_each f xs s'
      | Return s' \<Rightarrow> Return s'
      | Raise e s' \<Rightarrow> Raise e s')"

definition and_then :: "'s res \<Rightarrow> ('s \<Rightarrow> 's res) \<Rightarrow> 's res" where
  "and_then r f = (case r of Next s \<Rightarrow> f s | Return s \<Rightarrow> Return s | Raise e s \<Rightarrow> Raise e s)"

definition log_info :: "event \<Rightarrow> ('a::type) sim_scheme \<Rightarrow> 'a sim_scheme" where
  "log_info m st = st\<lparr>events := events st @ [m]\<rparr>"

subsection \<open>The memory ledger\<close>

definition get_free_mem :: "env \<Rightarrow> ('a::type) sim_scheme \<Rightarrow> real" where
  "get_free_mem e st = float_sub e (max_mem e) (used_mem st)"

definition do_allocate ::
  "env \<Rightarrow> string \<Rightarrow> int \<Rightarrow> int \<Rightarrow> ('a::type) sim_scheme \<Rightarrow> 'a sim_scheme" where
  "do_allocate e nm sz lifetime st =
     (let st1 = st\<lparr>used_mem := used_mem st + sz\<rparr>;
          st2 = st1\<lparr>mem := AList.update nm sz (mem st1)\<rparr>;
          st3 = st2\<lparr>ref_counts := AList.update nm lifetime (ref_counts st2)\<rparr>;
          st4 = st3\<lparr>mem_traces := mem_traces st3 @ [used_mem st3]\<rparr>
      in log_info (Allocated sz nm (used_mem st4) (get_free_mem e st4)) st4)"

definition allocate ::
  "env \<Rightarrow> string \<Rightarrow> int \<Rightarrow> int \<Rightarrow> ('a::type) sim_scheme \<Rightarrow> bool \<times> 'a sim_scheme" where
  "allocate e nm sz lifetime st =
     (if real_of_int sz \<ge> get_free_mem e st then
        (let st1 = log_info (OOM nm sz (used_mem st) (get_free_mem e st)) st
         in if \<not> plot e then (False, st1)
            else (False, do_allocate e nm sz lifetime st1))
      else (True, do_allocate e nm sz lifetime st))"

definition release :: "env \<Rightarrow> string \<Rightarrow> ('a::type) sim_scheme \<Rightarrow> 'a sim_scheme res" where
  "release e nm st =
     (case map_of (mem st) nm of
        None \<Rightarrow> Raise (KeyError nm) st
      | Some sz \<Rightarrow>
          (let st1 = st\<lparr>mem := AList.delete nm (mem st)\<rparr>
           in case map_of (ref_counts st1) nm of
                None \<Rightarrow> Raise (KeyError nm) st1
              | Some c \<Rightarrow>
                  (let st2 = st1\<lparr>ref_counts := AList.delete nm (ref_counts st1)\<rparr>;
                       st3 = st2\<lparr>used_mem := used_mem st2 - sz\<rparr>;
                       st4 = st3\<lparr>mem_traces := mem_traces st3 @ [used_mem st3]\<rparr>
                   in Next (log_info
                        (Released sz nm (used_mem st4) (get_free_mem e st4)) st4))))"

definition gc :: "env \<Rightarrow> ('a::type) sim_scheme \<Rightarrow> 'a sim_scheme res" where
  "gc e st =
     (let cands = map fst (filter (\<lambda>(k, v). v = 0) (ref_counts st))
      in for_each (release e) cands st)"

definition reset :: "('a::type) sim_scheme \<Rightarrow> 'a sim_scheme" where
  "reset st = st\<lparr>mem := [], ref_counts := [], used_mem := 0, mem_traces := []\<rparr>"

subsection \<open>The run\<close>

text \<open>\<^verbatim>\<open>_is_swapin_tensor\<close>: the first key of \<^verbatim>\<open>_mem\<close> that has both names as substrings.\<close>

definition is_swapin_tensor ::
  "('a::type) sim_scheme \<Rightarrow> string \<Rightarrow> string \<Rightarrow> bool \<times> string" where
  "is_swapin_tensor st tsn opn =
     (case find (\<lambda>s. sublist tsn s \<and> sublist opn s) (map fst (mem st)) of
        Some s \<Rightarrow> (True, s)
      | None \<Rightarrow> (False, tsn))"

text \<open>
  The three statements after each call of \<^verbatim>\<open>_allocate\<close> in \<^verbatim>\<open>play\<close>:
  \<^verbatim>\<open>if not ok: passed = False; if not self._plot: return passed\<close>.
\<close>

definition check_ok :: "env \<Rightarrow> bool \<times> play_state \<Rightarrow> play_state res" where
  "check_ok e r =
     (case r of (ok, st) \<Rightarrow>
        if \<not> ok then
          (let st1 = st\<lparr>passed := False\<rparr>
           in if \<not> plot e then Return st1 else Next st1)
        else Next st)"

text \<open>The body of the loop over the swap-in tuples of level \<open>k\<close>.\<close>

definition swapin_one :: "env \<Rightarrow> nat \<Rightarrow> ts_info \<Rightarrow> play_state \<Rightarrow> play_state res" where
  "swapin_one e k nsl st =
     (case nsl of (nm, sz, lifetime) \<Rightarrow>
        (let st1 = st\<lparr>ts_size := Some sz\<rparr>;
             st2 = log_info (SwappedIn k nm) st1
         in check_ok e (allocate e nm sz lifetime st2)))"

text \<open>The body of the loop that allocates the inputs of \<open>opr\<close>.\<close>

definition alloc_input :: "env \<Rightarrow> op \<Rightarrow> tensor \<Rightarrow> play_state \<Rightarrow> play_state res" where
  "alloc_input e opr ts st =
     (if fst (is_swapin_tensor st (t_name ts) (op_name opr)) then Next st
      else if t_name ts \<in> set (map fst (mem st)) then Next st
      else (case ts_size st of
              None \<Rightarrow> Raise (UnboundLocalError ''ts_size'') st
            | Some sz \<Rightarrow>
                check_ok e
                  (allocate e (t_name ts) sz (int (length (t_consumers ts))) st)))"

definition alloc_output :: "env \<Rightarrow> tensor \<Rightarrow> play_state \<Rightarrow> play_state res" where
  "alloc_output e ts st =
     (let n_consumers = length (t_consumers ts)
      in if n_consumers = 0 then Next st
         else check_ok e (allocate e (t_name ts) (t_size ts) (int n_consumers) st))"

text \<open>\<^verbatim>\<open>self._ref_counts[s] -= 1\<close>\<close>

definition decr_ref :: "string \<Rightarrow> ('a::type) sim_scheme \<Rightarrow> 'a sim_scheme res" where
  "decr_ref s st =
     (case map_of (ref_counts st) s of
        None \<Rightarrow> Raise (KeyError s) st
      | Some c \<Rightarrow> Next (st\<lparr>ref_counts := AList.update s (c - 1) (ref_counts st)\<rparr>))"

definition consume_input :: "op \<Rightarrow> tensor \<Rightarrow> play_state \<Rightarrow> play_state res" where
  "consume_input opr ts st =
     decr_ref (snd (is_swapin_tensor st (t_name ts) (op_name opr))) st"

text \<open>
  The set comprehension
  \<^verbatim>\<open>{x for x in swapouts if x in self._mem and self._ref_counts[x] > 0}\<close>,
  evaluated before the loop over it starts.
\<close>

primrec live_swapouts :: "play_state \<Rightarrow> string list \<Rightarrow> error + string list" where
  "live_swapouts st [] = Inr []"
| "live_swapouts st (x # xs) =
     (if x \<in> set (map fst (mem st)) then
        (case map_of (ref_counts st) x of
           None \<Rightarrow> Inl (KeyError x)
         | Some c \<Rightarrow>
             (case live_swapouts st xs of
                Inl err \<Rightarrow> Inl err
              | Inr r \<Rightarrow> Inr (if c > 0 then x # r else r)))
      else live_swapouts st xs)"

definition update_swapouts :: "play_state \<Rightarrow> play_state res" where
  "update_swapouts st =
     (case live_swapouts st (swapouts st) of
        Inl err \<Rightarrow> Raise err st
      | Inr xs \<Rightarrow> for_each decr_ref xs st)"

fun join :: "string \<Rightarrow> string list \<Rightarrow> string" where
  "join sep [] = []"
| "join sep [x] = x"
| "join sep (x # y # ys) = x @ sep @ join sep (y # ys)"

definition set_add :: "'a \<Rightarrow> 'a list \<Rightarrow> 'a list" where
  "set_add x xs = (if x \<in> set xs then xs else xs @ [x])"

text \<open>The body of the loop over the groups of destinations: one swap-in tuple is queued.\<close>

definition add_swapin ::
  "env \<Rightarrow> int \<Rightarrow> string \<Rightarrow> int \<Rightarrow> string list \<Rightarrow> play_state \<Rightarrow> play_state" where
  "add_swapin e ahead tsn sz dests st =
     (let s = tsn @ ''_'' @ join ''_'' dests;
          info = (s, sz, int (length dests));
          dest = get_earliest_op e dests;
          sin_level = get_level e dest - ahead
      in case swapins st sin_level of
           Some infos \<Rightarrow> st\<lparr>swapins := (swapins st)(sin_level \<mapsto> set_add info infos)\<rparr>
         | None \<Rightarrow> st\<lparr>swapins := (swapins st)(sin_level \<mapsto> [info])\<rparr>)"

definition dest_ops_of :: "env \<Rightarrow> int \<Rightarrow> op \<Rightarrow> tensor \<Rightarrow> string list" where
  "dest_ops_of e threshold opr ts =
     filter (\<lambda>d. d \<notin> set (excl_dest_ops e))
       (remdups (filter (\<lambda>d. distance e (op_name opr) d > threshold) (t_consumers ts)))"

text \<open>The body of the loop that decides the swap-out of each output of \<open>opr\<close>.\<close>

definition swap_out ::
  "env \<Rightarrow> int \<Rightarrow> int \<Rightarrow> int \<Rightarrow> nat \<Rightarrow> op \<Rightarrow> tensor \<Rightarrow> play_state \<Rightarrow> play_state res" where
  "swap_out e threshold ahead gb k opr ts st =
     (case t_ndims ts of
        None \<Rightarrow> Next st
      | Some ndims \<Rightarrow>
          if ndims \<le> 1 then Next st
          else
            (let st1 = st\<lparr>ts_size := Some (t_size ts)\<rparr>;
                 dest_ops = dest_ops_of e threshold opr ts
             in if dest_ops = [] then Next st1
                else
                  (case map_of (ref_counts st1) (t_name ts) of
                     None \<Rightarrow> Raise (KeyError (t_name ts)) st1
                   | Some c \<Rightarrow>
                       (let st2 = st1\<lparr>ref_counts :=
                                    AList.update (t_name ts) (c - int (length dest_ops))
                                      (ref_counts st1)\<rparr>;
                            st3 = st2\<lparr>ref_counts :=
                                    AList.update (t_name ts)
                                      (c - int (length dest_ops) + swapout_delay e)
                                      (ref_counts st2)\<rparr>;
                            st4 = st3\<lparr>swapouts := set_add (t_name ts) (swapouts st3)\<rparr>;
                            st5 = log_info (SwappedOut k (t_name ts)) st4
                        in Next (fold (add_swapin e ahead (t_name ts) (t_size ts))
                                   (groupby e dest_ops gb) st5)))))"

text \<open>
  The swap-out section of one operation: nothing for an excluded source, else the loop
  over its outputs.
\<close>

definition swap_out_all ::
  "env \<Rightarrow> int \<Rightarrow> int \<Rightarrow> int \<Rightarrow> nat \<Rightarrow> op \<Rightarrow> tensor list \<Rightarrow> play_state \<Rightarrow> play_state res"
  where
  "swap_out_all e threshold ahead gb k opr out_tensors st =
     (if op_name opr \<in> set (excl_src_ops e) then Next st
      else for_each (swap_out e threshold ahead gb k opr) out_tensors st)"

text \<open>The body of the loop over the operations of level \<open>k\<close>.\<close>

definition exec_op ::
  "env \<Rightarrow> int \<Rightarrow> int \<Rightarrow> int \<Rightarrow> nat \<Rightarrow> op \<Rightarrow> play_state \<Rightarrow> play_state res" where
  "exec_op e threshold ahead gb k opr st =
     (let st0 = log_info (ExecuteOp k (op_name opr)) st;
          in_tensors = remdups (op_inputs opr);
          out_tensors = remdups (op_outputs opr)
      in and_then (for_each (alloc_input e opr) in_tensors st0) (\<lambda>st1.
         and_then (for_each (alloc_output e) out_tensors st1) (\<lambda>st2.
         and_then (for_each (consume_input opr) in_tensors st2) (\<lambda>st3.
         and_then (update_swapouts st3) (\<lambda>st4.
         and_then (gc e st4) (\<lambda>st5.
           swap_out_all e threshold ahead gb k opr out_tensors st5))))))"

text \<open>The body of the loop over the levels.\<close>

definition level_step ::
  "env \<Rightarrow> int \<Rightarrow> int \<Rightarrow> int \<Rightarrow> nat \<Rightarrow> play_state \<Rightarrow> play_state res" where
  "level_step e threshold ahead gb k st =
     and_then (gc e (log_info (SimulateLevel k) st)) (\<lambda>st1.
       (let k_ops = get_ops_by_level e k;
            name_size_lifetimes = (case swapins st1 (int k) of Some x \<Rightarrow> x | None \<Rightarrow> [])
        in and_then (for_each (swapin_one e k) name_size_lifetimes st1) (\<lambda>st2.
           and_then (for_each (exec_op e threshold ahead gb k) k_ops st2) (\<lambda>st3.
             Next (log_info (AvailableMemory k) st3)))))"

definition init_play :: "int \<Rightarrow> int \<Rightarrow> int \<Rightarrow> sim \<Rightarrow> play_state" where
  "init_play threshold ahead gb s =
     (let s1 = log_info (Simulating threshold ahead gb) (reset s)
      in \<lparr>mem = mem s1, used_mem = used_mem s1, mem_traces = mem_traces s1,
          ref_counts = ref_counts s1, events = events s1,
          swapouts = [], swapins = Map.empty, passed = True, ts_size = None\<rparr>)"

definition play :: "env \<Rightarrow> int \<Rightarrow> int \<Rightarrow> int \<Rightarrow> sim \<Rightarrow> play_state res" where
  "play e threshold ahead gb s =
     and_then (for_each (level_step e threshold ahead gb) [0..<topo_size e]
                 (init_play threshold ahead gb s)) (\<lambda>st.
       (let st1 = (if plot e then log_info (GenerateDiagram threshold ahead gb) st else st);
            st2 = log_info (SwappedOutTotal (length (swapouts st1))) st1
        in Return st2))"

subsection \<open>Reading a result\<close>

primrec state_of :: "'s res \<Rightarrow> 's" where
  "state_of (Next s) = s"
| "state_of (Return s) = s"
| "state_of (Raise err s) = s"

primrec returned :: "'s res \<Rightarrow> bool" where
  "returned (Next s) = False"
| "returned (Return s) = True"
| "returned (Raise err s) = False"

primrec finished :: "'s res \<Rightarrow> bool" where
  "finished (Next s) = False"
| "finished (Return s) = True"
| "finished (Raise err s) = True"

primrec raised :: "'s res \<Rightarrow> error option" where
  "raised (Next s) = None"
| "raised (Return s) = None"
| "raised (Raise err s) = Some err"

text \<open>The sum of the sizes of the resident entries.\<close>

definition resident_bytes :: "('a::type) sim_scheme \<Rightarrow> int" where
  "resident_bytes st = sum_list (map snd (mem st))"


text \<open>The levels whose simulation was started, from the messages.\<close>

fun levels_of :: "event list \<Rightarrow> nat list" where
  "levels_of [] = []"
| "levels_of (SimulateLevel k # es) = k # levels_of es"
| "levels_of (ev # es) = levels_of es"

text \<open>The out-of-memory messages: \<^verbatim>\<open>_allocate\<close> sends one exactly when it fails.\<close>

fun is_oom :: "event \<Rightarrow> bool" where
  "is_oom (OOM nm sz used free) = True"
| "is_oom ev = False"

definition no_oom :: "event list \<Rightarrow> bool" where
  "no_oom es = (filter is_oom es = [])"

text \<open>
  What a caller of \<^verbatim>\<open>play\<close> gets: whether the call returned or raised, the value
  returned, the memory trace and the number of tensors swapped out.
\<close>

definition outcome :: "play_state res \<Rightarrow> bool \<times> error option \<times> bool \<times> int list \<times> nat" where
  "outcome r =
     (returned r, raised r, passed (state_of r), mem_traces (state_of r),
      length (swapouts (state_of r)))"

subsection \<open>Parts of the state that a piece of code does not depend on\<close>

definition forget_events :: "play_state \<Rightarrow> play_state" where
  "forget_events st = st\<lparr>events := []\<rparr>"


text \<open>
  \<open>stable N f\<close>: up to \<open>N\<close>, the result of \<open>f\<close> is the same on a state and on its
  image under \<open>N\<close>.
\<close>

definition stable :: "('s \<Rightarrow> 's) \<Rightarrow> ('s \<Rightarrow> 's res) \<Rightarrow> bool" where
  "stable N f = (\<forall>st. map_res N (f st) = map_res N (f (N st)))"

text \<open>
  \<open>agree N f g\<close>: up to \<open>N\<close>, \<open>f\<close> and \<open>g\<close> give the same result on states that are
  the same up to \<open>N\<close>. \<open>forget_flag\<close> drops what a failed allocation leaves behind in
  a run with plotting enabled: the messages and the flag \<open>passed\<close>.
\<close>

definition agree :: "('s \<Rightarrow> 's) \<Rightarrow> ('s \<Rightarrow> 's res) \<Rightarrow> ('s \<Rightarrow> 's res) \<Rightarrow> bool" where
  "agree N f g = (\<forall>a b. N a = N b \<longrightarrow> map_res N (f a) = map_res N (g b))"

definition forget_flag :: "play_state \<Rightarrow> play_state" where
  "forget_flag st = st\<lparr>events := [], passed := True\<rparr>"


subsection \<open>The swap-out decision\<close>

text \<open>
  The two tests of the loop body \<open>swap_out\<close> that let it go on to the eviction: the rank
  is known and above 1, and some destination is left.
\<close>

definition evicts :: "env \<Rightarrow> int \<Rightarrow> op \<Rightarrow> tensor \<Rightarrow> bool" where
  "evicts e threshold opr ts =
     ((case t_ndims ts of None \<Rightarrow> False | Some ndims \<Rightarrow> 1 < ndims) \<and>
      dest_ops_of e threshold opr ts \<noteq> [])"

subsection \<open>Failed allocations and the flag \<open>passed\<close>\<close>

text \<open>
  What a piece of the loop body does with the flag, in terms of the messages \<open>es\<close> it
  sends: when it falls through, the flag stays true exactly if it was true and no
  out-of-memory message was sent, and with plotting disabled none was sent; it leaves
  \<^verbatim>\<open>play\<close> by \<^verbatim>\<open>return\<close> only with plotting disabled, with the flag false and with an
  out-of-memory message as its last and only one.
\<close>

definition oom_spec :: "env \<Rightarrow> play_state \<Rightarrow> play_state res \<Rightarrow> bool" where
  "oom_spec e st r =
     (\<exists>es. events (state_of r) = events st @ es \<and>
        (case r of
           Next st' \<Rightarrow> passed st' = (passed st \<and> no_oom es) \<and> (plot e \<or> no_oom es)
         | Return st' \<Rightarrow>
             \<not> plot e \<and> \<not> passed st' \<and>
             (\<exists>es0 m. es = es0 @ [m] \<and> is_oom m \<and> no_oom es0)
         | Raise err st' \<Rightarrow> True))"

section \<open>Example graphs\<close>

text \<open>The state of a simulator after \<^verbatim>\<open>__init__\<close>, before any message is sent.\<close>

definition sim0 :: sim where
  "sim0 = \<lparr>mem = [], used_mem = 0, mem_traces = [], ref_counts = [], events = []\<rparr>"

text \<open>
  Three levels, one operation each: \<open>a\<close> and \<open>c\<close> produce one tensor of rank 2 each,
  both consumed by \<open>b\<close>. The distance of two operations is the difference of their
  levels, and all destinations form one group. In this graph and the next ones all
  numbers are small integers, on which the floating-point subtraction is exact.
\<close>

definition lvl_abc :: "string \<Rightarrow> int" where
  "lvl_abc n = (if n = ''a'' then 0 else if n = ''c'' then 1 else 2)"

definition ts_a :: tensor where
  "ts_a = \<lparr>t_name = ''a:0'', t_size = 100, t_ndims = Some 2, t_consumers = [''b'']\<rparr>"

definition ts_c :: tensor where
  "ts_c = \<lparr>t_name = ''c:0'', t_size = 7, t_ndims = Some 2, t_consumers = [''b'']\<rparr>"

definition op_a :: op where
  "op_a = \<lparr>op_name = ''a'', op_inputs = [], op_outputs = [ts_a]\<rparr>"

definition op_c :: op where
  "op_c = \<lparr>op_name = ''c'', op_inputs = [], op_outputs = [ts_c]\<rparr>"

definition op_b :: op where
  "op_b = \<lparr>op_name = ''b'', op_inputs = [ts_a, ts_c], op_outputs = []\<rparr>"

definition env_abc :: env where
  "env_abc =
     \<lparr>plot = False, max_mem = 1000,
      float_sub = (\<lambda>c u. c - real_of_int u), swapout_delay = 1, topo_size = 3,
      get_ops_by_level =
        (\<lambda>k. if k = 0 then [op_a] else if k = 1 then [op_c]
             else if k = 2 then [op_b] else []),
      excl_src_ops = [], excl_dest_ops = [],
      distance = (\<lambda>x y. lvl_abc y - lvl_abc x),
      get_level = lvl_abc,
      get_earliest_op = hd,
      groupby = (\<lambda>ds g. [ds])\<rparr>"

text \<open>
  A capacity between \<open>2^59\<close> and \<open>2^60\<close>, where the doubles are the multiples of 128:
  the subtraction rounds to the nearest of them.
\<close>

definition env_big :: env where
  "env_big =
     env_abc\<lparr>max_mem := 1037629354146162304,
             float_sub := (\<lambda>c u. 128 * real_of_int (round ((c - real_of_int u) / 128)))\<rparr>"

text \<open>The state of a run on \<open>env_abc\<close> once the output of \<open>a\<close> is allocated.\<close>

definition st_abc_a :: play_state where
  "st_abc_a = snd (allocate env_abc ''a:0'' 100 1 (init_play 1 0 0 sim0))"


text \<open>
  Two operations \<open>bias_add\<close> and \<open>add\<close> on level 0, each with one output consumed by
  the operation \<open>d\<close> on level 1. No tensor is swapped out (rank 1).
\<close>

definition ts_bias_add :: tensor where
  "ts_bias_add =
     \<lparr>t_name = ''bias_add:0'', t_size = 4, t_ndims = Some 1, t_consumers = [''d'']\<rparr>"

definition ts_add :: tensor where
  "ts_add = \<lparr>t_name = ''add:0'', t_size = 4, t_ndims = Some 1, t_consumers = [''d'']\<rparr>"

definition lvl_add :: "string \<Rightarrow> int" where
  "lvl_add n = (if n = ''d'' then 1 else 0)"

definition env_add :: env where
  "env_add =
     \<lparr>plot = False, max_mem = 1000,
      float_sub = (\<lambda>c u. c - real_of_int u), swapout_delay = 1, topo_size = 2,
      get_ops_by_level =
        (\<lambda>k. if k = 0 then
               [\<lparr>op_name = ''bias_add'', op_inputs = [], op_outputs = [ts_bias_add]\<rparr>,
                \<lparr>op_name = ''add'', op_inputs = [], op_outputs = [ts_add]\<rparr>]
             else if k = 1 then
               [\<lparr>op_name = ''d'', op_inputs = [ts_add, ts_bias_add], op_outputs = []\<rparr>]
             else []),
      excl_src_ops = [], excl_dest_ops = [],
      distance = (\<lambda>x y. lvl_add y - lvl_add x),
      get_level = lvl_add,
      get_earliest_op = hd,
      groupby = (\<lambda>ds g. [ds])\<rparr>"

text \<open>
  Four levels: \<open>a\<close>; \<open>n1\<close>; \<open>b_c\<close>; \<open>b\<close> and \<open>c\<close>. The output of \<open>a\<close> (rank 2) is
  consumed by the four others. The destinations are grouped by level, as the grouping
  of the graph analysis does for limit 0.
\<close>

definition lvl_grp :: "string \<Rightarrow> int" where
  "lvl_grp n =
     (if n = ''a'' then 0 else if n = ''n1'' then 1 else if n = ''b_c'' then 2 else 3)"

definition ts_a2 :: tensor where
  "ts_a2 =
     \<lparr>t_name = ''a:0'', t_size = 10, t_ndims = Some 2,
      t_consumers = [''n1'', ''b_c'', ''b'', ''c'']\<rparr>"

definition ts_n1 :: tensor where
  "ts_n1 = \<lparr>t_name = ''n1:0'', t_size = 1, t_ndims = Some 0, t_consumers = [''b_c'']\<rparr>"

definition env_grp :: env where
  "env_grp =
     \<lparr>plot = False, max_mem = 1000,
      float_sub = (\<lambda>c u. c - real_of_int u), swapout_delay = 1, topo_size = 4,
      get_ops_by_level =
        (\<lambda>k. if k = 0 then [\<lparr>op_name = ''a'', op_inputs = [], op_outputs = [ts_a2]\<rparr>]
             else if k = 1 then
               [\<lparr>op_name = ''n1'', op_inputs = [ts_a2], op_outputs = [ts_n1]\<rparr>]
             else if k = 2 then
               [\<lparr>op_name = ''b_c'', op_inputs = [ts_a2, ts_n1], op_outputs = []\<rparr>]
             else if k = 3 then
               [\<lparr>op_name = ''b'', op_inputs = [ts_a2], op_outputs = []\<rparr>,
                \<lparr>op_name = ''c'', op_inputs = [ts_a2], op_outputs = []\<rparr>]
             else []),
      excl_src_ops = [], excl_dest_ops = [],
      distance = (\<lambda>x y. lvl_grp y - lvl_grp x),
      get_level = lvl_grp,
      get_earliest_op = hd,
      groupby =
        (\<lambda>ds g. map (\<lambda>l. filter (\<lambda>d. lvl_grp d = l) ds) (remdups (map lvl_grp ds)))\<rparr>"

section \<open>Runs on the example graphs\<close>

text \<open>
  Claim C7, at a concrete graph. On \<open>env_abc\<close> with threshold 1 and ahead 2 the tensor
  \<open>a:0\<close> (100 bytes) is swapped out and released before its consumer \<open>b\<close> runs; its
  swap-in is queued under level 0 and never materialized. When \<open>b\<close> runs, \<open>a:0\<close> is
  allocated with 7 bytes, the value that the swap-out section of \<open>c\<close> left in
  \<open>ts_size\<close>, not with its own 100 bytes.
\<close>

theorem play_abc_stale_size:
  "returned (play env_abc 1 2 0 sim0) \<and>
   t_size ts_a = 100 \<and>
   events (state_of (play env_abc 1 2 0 sim0)) =
     [Simulating 1 2 0, SimulateLevel 0, ExecuteOp 0 ''a'',
      Allocated 100 ''a:0'' 100 900, SwappedOut 0 ''a:0'', AvailableMemory 0,
      SimulateLevel 1, ExecuteOp 1 ''c'', Allocated 7 ''c:0'' 107 893,
      Released 100 ''a:0'' 7 993, AvailableMemory 1,
      SimulateLevel 2, ExecuteOp 2 ''b'', Allocated 7 ''a:0'' 14 986,
      Released 7 ''c:0'' 7 993, Released 7 ''a:0'' 0 1000, AvailableMemory 2,
      SwappedOutTotal 1] \<and>
   mem_traces (state_of (play env_abc 1 2 0 sim0)) = [100, 107, 7, 14, 7, 0]"
  by code_simp

text \<open>
  Claim C6, at a concrete graph. On \<open>env_add\<close> both inputs of \<open>d\<close> resolve to the key
  \<open>bias_add:0\<close> (it contains \<open>add:0\<close> and \<open>d\<close>), so its count is decremented twice,
  from 1 to -1, and stays there; \<open>add:0\<close> is never decremented.
\<close>

theorem play_add_negative_ref_count:
  "returned (play env_add 5 0 0 sim0) \<and>
   ref_counts (state_of (play env_add 5 0 0 sim0)) = [(''bias_add:0'', - 1), (''add:0'', 1)] \<and>
   mem (state_of (play env_add 5 0 0 sim0)) = [(''bias_add:0'', 4), (''add:0'', 4)]"
  by code_simp

text \<open>
  Claim C2, at a concrete graph. On \<open>env_grp\<close> with threshold 1 and ahead 1 the groups
  \<open>[b_c]\<close> and \<open>[b, c]\<close> of the destinations of \<open>a:0\<close> get the same key \<open>a:0_b_c\<close>,
  queued under levels 1 and 2. The second allocation finds the first still resident:
  the used bytes grow by 10 again while the map keeps one entry. At the end 20 bytes
  are counted as used and the resident entries sum to 10.
\<close>

theorem play_grp_used_mem_differs:
  "returned (play env_grp 1 1 0 sim0) \<and>
   used_mem (state_of (play env_grp 1 1 0 sim0)) = 20 \<and>
   mem (state_of (play env_grp 1 1 0 sim0)) = [(''a:0'', 10)] \<and>
   resident_bytes (state_of (play env_grp 1 1 0 sim0)) = 10 \<and>
   mem_traces (state_of (play env_grp 1 1 0 sim0)) = [10, 20, 21, 11, 21, 20, 10, 20]"
  by code_simp


section \<open>Properties of the memory ledger\<close>

lemma do_allocate_fields:
  "mem (do_allocate e nm sz lt st) = AList.update nm sz (mem st)"
  "ref_counts (do_allocate e nm sz lt st) = AList.update nm lt (ref_counts st)"
  "used_mem (do_allocate e nm sz lt st) = used_mem st + sz"
  "mem_traces (do_allocate e nm sz lt st) = mem_traces st @ [used_mem st + sz]"
  by (simp_all add: do_allocate_def log_info_def Let_def)

lemma log_info_fields:
  "mem (log_info m st) = mem st"
  "ref_counts (log_info m st) = ref_counts st"
  "used_mem (log_info m st) = used_mem st"
  "mem_traces (log_info m st) = mem_traces st"
  "events (log_info m st) = events st @ [m]"
  by (simp_all add: log_info_def)



text \<open>
  Where the subtraction rounds, the free bytes are the rounded difference: with 100
  bytes used under \<open>env_big\<close> they are 28 less than the arithmetic difference, and a
  request between the two fails.
\<close>

lemma allocate_rounded:
  "get_free_mem env_big (sim0\<lparr>used_mem := 100\<rparr>) = 1037629354146162176 \<and>
   fst (allocate env_big ''t'' 1037629354146162180 1 (sim0\<lparr>used_mem := 100\<rparr>)) = False \<and>
   real_of_int 1037629354146162180 < max_mem env_big - real_of_int 100"
  by code_simp

text \<open>
  Claim C9. Let a call of \<^verbatim>\<open>_allocate\<close> fail (the size is at least the free bytes).
  With plotting disabled, the resident map, the reference counts, the used bytes and
  the trace are as before the call. With plotting enabled, the entry is stored with the
  given size, its reference count is the given lifetime, the used bytes grow by the
  whole size (and reach or exceed the capacity, where the floating-point subtraction
  is exact) and the trace gets one more sample: the four fields are those that the
  same call leaves under any capacity large enough for it to succeed.
\<close>

theorem allocate_failed_state:
  "real_of_int sz \<ge> get_free_mem e st \<Longrightarrow>
     fst (allocate e nm sz lt st) = False \<and>
     (\<not> plot e \<longrightarrow>
        mem (snd (allocate e nm sz lt st)) = mem st \<and>
        ref_counts (snd (allocate e nm sz lt st)) = ref_counts st \<and>
        used_mem (snd (allocate e nm sz lt st)) = used_mem st \<and>
        mem_traces (snd (allocate e nm sz lt st)) = mem_traces st) \<and>
     (plot e \<longrightarrow>
        mem (snd (allocate e nm sz lt st)) = AList.update nm sz (mem st) \<and>
        ref_counts (snd (allocate e nm sz lt st)) = AList.update nm lt (ref_counts st) \<and>
        used_mem (snd (allocate e nm sz lt st)) = used_mem st + sz \<and>
        (float_sub e (max_mem e) (used_mem st) = max_mem e - real_of_int (used_mem st) \<longrightarrow>
           real_of_int (used_mem (snd (allocate e nm sz lt st))) \<ge> max_mem e) \<and>
        mem_traces (snd (allocate e nm sz lt st)) = mem_traces st @ [used_mem st + sz] \<and>
        (\<forall>e'. real_of_int sz < get_free_mem e' st \<longrightarrow>
           fst (allocate e' nm sz lt st) = True \<and>
           mem (snd (allocate e' nm sz lt st)) = mem (snd (allocate e nm sz lt st)) \<and>
           ref_counts (snd (allocate e' nm sz lt st)) =
             ref_counts (snd (allocate e nm sz lt st)) \<and>
           used_mem (snd (allocate e' nm sz lt st)) =
             used_mem (snd (allocate e nm sz lt st)) \<and>
           mem_traces (snd (allocate e' nm sz lt st)) =
             mem_traces (snd (allocate e nm sz lt st))))"
  by (simp add: allocate_def get_free_mem_def Let_def do_allocate_fields log_info_fields)

theorem allocate_failed_state_witness:
  "get_free_mem env_abc sim0 \<le> real_of_int 1000 \<and> \<not> plot env_abc \<and>
   mem (snd (allocate env_abc ''t'' 1000 2 sim0)) = [] \<and>
   used_mem (snd (allocate env_abc ''t'' 1000 2 sim0)) = 0 \<and>
   get_free_mem (env_abc\<lparr>plot := True\<rparr>) sim0 \<le> real_of_int 1000 \<and>
   plot (env_abc\<lparr>plot := True\<rparr>) \<and>
   mem (snd (allocate (env_abc\<lparr>plot := True\<rparr>) ''t'' 1000 2 sim0)) = [(''t'', 1000)] \<and>
   used_mem (snd (allocate (env_abc\<lparr>plot := True\<rparr>) ''t'' 1000 2 sim0)) = 1000 \<and>
   real_of_int (used_mem (snd (allocate (env_abc\<lparr>plot := True\<rparr>) ''t'' 1000 2 sim0))) \<ge>
     max_mem (env_abc\<lparr>plot := True\<rparr>)"
proof -
  have h1: "get_free_mem env_abc sim0 \<le> real_of_int 1000"
    by (simp add: get_free_mem_def env_abc_def sim0_def)
  have h2: "get_free_mem (env_abc\<lparr>plot := True\<rparr>) sim0 \<le> real_of_int 1000"
    by (simp add: get_free_mem_def env_abc_def sim0_def)
  have p1: "\<not> plot env_abc" by (simp add: env_abc_def)
  have p2: "plot (env_abc\<lparr>plot := True\<rparr>)" by simp
  have x: "float_sub (env_abc\<lparr>plot := True\<rparr>) (max_mem (env_abc\<lparr>plot := True\<rparr>))
             (used_mem sim0) =
           max_mem (env_abc\<lparr>plot := True\<rparr>) - real_of_int (used_mem sim0)"
    by (simp add: env_abc_def)
  show ?thesis
    using allocate_failed_state [OF h1, of "''t''" 2]
      allocate_failed_state [OF h2, of "''t''" 2] h1 h2 p1 p2 x
    by (simp add: sim0_def)
qed

section \<open>Stability of the run under changes it does not read\<close>

lemma stable_rel:
  assumes "stable N f" "N a = N b"
  shows "map_res N (f a) = map_res N (f b)"
proof -
  have "map_res N (f a) = map_res N (f (N a))" using assms(1) unfolding stable_def by blast
  also have "\<dots> = map_res N (f (N b))" using assms(2) by simp
  also have "\<dots> = map_res N (f b)" using assms(1) unfolding stable_def by simp
  finally show ?thesis .
qed

lemma stable_for_each_rel:
  assumes "\<And>x. x \<in> set xs \<Longrightarrow> stable N (f x)" "N a = N b"
  shows "map_res N (for_each f xs a) = map_res N (for_each f xs b)"
  using assms
proof (induction xs arbitrary: a b)
  case Nil
  then show ?case by simp
next
  case (Cons x xs)
  have st: "stable N (f x)" using Cons.prems(1) by simp
  have eq: "map_res N (f x a) = map_res N (f x b)"
    using stable_rel [OF st Cons.prems(2)] .
  show ?case
  proof (cases "f x a")
    case (Next s)
    then obtain s' where s': "f x b = Next s'" "N s = N s'"
      using eq by (cases "f x b"; simp)
    have "map_res N (for_each f xs s) = map_res N (for_each f xs s')"
      using Cons.IH [OF _ s'(2)] Cons.prems(1) by simp
    then show ?thesis using Next s' by simp
  next
    case (Return s)
    then show ?thesis using eq by (cases "f x b"; simp)
  next
    case (Raise err s)
    then show ?thesis using eq by (cases "f x b"; simp)
  qed
qed

lemma stable_for_each:
  assumes "\<And>s. N (N s) = N s" and "\<And>x. x \<in> set xs \<Longrightarrow> stable N (f x)"
  shows "stable N (for_each f xs)"
  unfolding stable_def
proof
  fix st
  have "N st = N (N st)" using assms(1) by simp
  then show "map_res N (for_each f xs st) = map_res N (for_each f xs (N st))"
    using assms(2) by (rule stable_for_each_rel [rotated])
qed

lemma stable_and_then_rel:
  assumes "map_res N r = map_res N r'" "stable N f"
  shows "map_res N (and_then r f) = map_res N (and_then r' f)"
proof (cases r)
  case (Next s)
  then obtain s' where s': "r' = Next s'" "N s = N s'"
    using assms(1) by (cases r'; simp)
  show ?thesis using Next s'(1) stable_rel [OF assms(2) s'(2)] by (simp add: and_then_def)
next
  case (Return s)
  then show ?thesis using assms(1) by (cases r'; simp add: and_then_def)
next
  case (Raise err s)
  then show ?thesis using assms(1) by (cases r'; simp add: and_then_def)
qed


lemma fe_idem: "forget_events (forget_events s) = forget_events s"
  by (simp add: forget_events_def)

lemma fe_fields:
  "mem (forget_events st) = mem st"
  "ref_counts (forget_events st) = ref_counts st"
  "used_mem (forget_events st) = used_mem st"
  "mem_traces (forget_events st) = mem_traces st"
  "swapouts (forget_events st) = swapouts st"
  "swapins (forget_events st) = swapins st"
  "passed (forget_events st) = passed st"
  "ts_size (forget_events st) = ts_size st"
  by (simp_all add: forget_events_def)

lemma fe_is_swapin: "is_swapin_tensor (forget_events st) = is_swapin_tensor st"
  by (simp add: is_swapin_tensor_def fun_eq_iff fe_fields)

lemma fe_release: "stable forget_events (release e nm)"
  by (simp add: stable_def release_def Let_def log_info_def get_free_mem_def forget_events_def
      split: option.splits)

lemma fe_gc: "stable forget_events (gc e)"
  unfolding stable_def gc_def Let_def fe_fields
  by (intro allI stable_for_each_rel fe_release) (simp add: fe_idem)

lemma fe_swapin_one: "stable forget_events (swapin_one e k nsl)"
  by (cases nsl)
    (simp add: stable_def swapin_one_def check_ok_def allocate_def do_allocate_def log_info_def
      get_free_mem_def Let_def forget_events_def)

lemma fe_alloc_input: "stable forget_events (alloc_input e opr ts)"
  by (simp add: stable_def alloc_input_def fe_is_swapin fe_fields)
    (simp add: check_ok_def allocate_def do_allocate_def log_info_def
      get_free_mem_def Let_def forget_events_def split: option.splits)

lemma fe_alloc_output: "stable forget_events (alloc_output e ts)"
  by (simp add: stable_def alloc_output_def check_ok_def allocate_def do_allocate_def log_info_def
      get_free_mem_def Let_def forget_events_def)

lemma fe_decr_ref: "stable forget_events (decr_ref s)"
  by (simp add: stable_def decr_ref_def forget_events_def split: option.splits)

lemma fe_consume_input: "stable forget_events (consume_input opr ts)"
  using fe_decr_ref by (simp add: stable_def consume_input_def fe_is_swapin)

lemma fe_live_swapouts: "live_swapouts (forget_events st) xs = live_swapouts st xs"
  by (induction xs) (simp_all add: fe_fields split: option.splits)

lemma fe_update_swapouts: "stable forget_events update_swapouts"
  unfolding stable_def update_swapouts_def fe_live_swapouts fe_fields
proof
  fix st
  show "map_res forget_events
          (case live_swapouts st (swapouts st) of Inl err \<Rightarrow> Raise err st
           | Inr xs \<Rightarrow> for_each decr_ref xs st) =
        map_res forget_events
          (case live_swapouts st (swapouts st) of Inl err \<Rightarrow> Raise err (forget_events st)
           | Inr xs \<Rightarrow> for_each decr_ref xs (forget_events st))"
  proof (cases "live_swapouts st (swapouts st)")
    case (Inl err)
    then show ?thesis by (simp add: fe_idem)
  next
    case (Inr xs)
    have "map_res forget_events (for_each decr_ref xs st) =
          map_res forget_events (for_each decr_ref xs (forget_events st))"
      by (rule stable_for_each_rel) (simp_all add: fe_decr_ref fe_idem)
    then show ?thesis using Inr by simp
  qed
qed

lemma fe_add_swapin:
  "forget_events (add_swapin e ah tsn sz dests st) = add_swapin e ah tsn sz dests (forget_events st)"
  by (simp add: add_swapin_def Let_def forget_events_def split: option.splits)

lemma fe_fold_add_swapin:
  "forget_events (fold (add_swapin e ah tsn sz) gs st) =
   fold (add_swapin e ah tsn sz) gs (forget_events st)"
  by (induction gs arbitrary: st) (simp_all add: fe_add_swapin)

lemma fe_swap_out: "stable forget_events (swap_out e th ah gb k opr ts)"
  by (simp add: stable_def swap_out_def Let_def fe_fold_add_swapin fe_idem split: option.splits)
    (simp add: forget_events_def log_info_def)


lemma stableI: "(\<And>st. map_res N (f st) = map_res N (f (N st))) \<Longrightarrow> stable N f"
  by (simp add: stable_def)

lemma stable_and_then:
  assumes "stable N f" "stable N g"
  shows "stable N (\<lambda>s. and_then (f s) g)"
proof (rule stableI)
  fix st
  have "map_res N (f st) = map_res N (f (N st))" using assms(1) by (simp add: stable_def)
  then show "map_res N (and_then (f st) g) = map_res N (and_then (f (N st)) g)"
    using assms(2) by (rule stable_and_then_rel)
qed

lemma stable_pre:
  assumes "\<And>s. N (h s) = N (h (N s))" "stable N f"
  shows "stable N (\<lambda>s. f (h s))"
  by (rule stableI) (rule stable_rel [OF assms(2) assms(1)])

lemma stable_Next:
  assumes "\<And>s. N (h s) = N (h (N s))"
  shows "stable N (\<lambda>s. Next (h s))"
  by (rule stableI) (simp add: assms [symmetric])

lemma stable_for_each_dep:
  assumes "\<And>s. N (N s) = N s" "\<And>s. xs (N s) = xs s" "\<And>x. stable N (f x)"
  shows "stable N (\<lambda>s. for_each f (xs s) s)"
proof (rule stableI)
  fix st
  have "map_res N (for_each f (xs st) st) = map_res N (for_each f (xs st) (N st))"
    by (rule stable_for_each_rel) (simp_all add: assms)
  then show "map_res N (for_each f (xs st) st) = map_res N (for_each f (xs (N st)) (N st))"
    by (simp add: assms(2))
qed

text \<open>The loops of \<^verbatim>\<open>play\<close> are stable when their parts are.\<close>

lemma stable_swap_out_all:
  assumes "\<And>s. N (N s) = N s" "\<And>x. stable N (swap_out e th ah gb k opr x)"
  shows "stable N (swap_out_all e th ah gb k opr outs)"
proof (cases "op_name opr \<in> set (excl_src_ops e)")
  case True
  have "stable N (\<lambda>s. Next ((\<lambda>s. s) s))" by (rule stable_Next) (simp add: assms(1))
  then show ?thesis using True by (simp add: stable_def swap_out_all_def)
next
  case False
  have "stable N (for_each (swap_out e th ah gb k opr) outs)"
    by (rule stable_for_each) (simp_all add: assms)
  then show ?thesis using False by (simp add: stable_def swap_out_all_def)
qed

lemma stable_exec_op:
  assumes idem: "\<And>s. N (N s) = N s"
    and lg: "\<And>m s. N (log_info m s) = N (log_info m (N s))"
    and a1: "\<And>x. stable N (alloc_input e opr x)"
    and a2: "\<And>x. stable N (alloc_output e x)"
    and a3: "\<And>x. stable N (consume_input opr x)"
    and a4: "stable N update_swapouts"
    and a5: "stable N (gc e)"
    and a6: "\<And>x. stable N (swap_out e th ah gb k opr x)"
  shows "stable N (exec_op e th ah gb k opr)"
proof -
  let ?ins = "remdups (op_inputs opr)" and ?outs = "remdups (op_outputs opr)"
  have s6: "stable N (swap_out_all e th ah gb k opr ?outs)"
    by (rule stable_swap_out_all) (simp_all add: idem a6)
  have s5: "stable N (\<lambda>s. and_then (gc e s) (swap_out_all e th ah gb k opr ?outs))"
    by (rule stable_and_then [OF a5 s6])
  have s4: "stable N (\<lambda>s. and_then (update_swapouts s)
              (\<lambda>s. and_then (gc e s) (swap_out_all e th ah gb k opr ?outs)))"
    by (rule stable_and_then [OF a4 s5])
  have s3: "stable N (\<lambda>s. and_then (for_each (consume_input opr) ?ins s)
              (\<lambda>s. and_then (update_swapouts s)
              (\<lambda>s. and_then (gc e s) (swap_out_all e th ah gb k opr ?outs))))"
    by (rule stable_and_then [OF stable_for_each s4]) (simp_all add: idem a3)
  have s2: "stable N (\<lambda>s. and_then (for_each (alloc_output e) ?outs s)
              (\<lambda>s. and_then (for_each (consume_input opr) ?ins s)
              (\<lambda>s. and_then (update_swapouts s)
              (\<lambda>s. and_then (gc e s) (swap_out_all e th ah gb k opr ?outs)))))"
    by (rule stable_and_then [OF stable_for_each s3]) (simp_all add: idem a2)
  have s1: "stable N (\<lambda>s. and_then (for_each (alloc_input e opr) ?ins s)
              (\<lambda>s. and_then (for_each (alloc_output e) ?outs s)
              (\<lambda>s. and_then (for_each (consume_input opr) ?ins s)
              (\<lambda>s. and_then (update_swapouts s)
              (\<lambda>s. and_then (gc e s) (swap_out_all e th ah gb k opr ?outs))))))"
    by (rule stable_and_then [OF stable_for_each s2]) (simp_all add: idem a1)
  show ?thesis
  proof (rule stableI)
    fix st
    show "map_res N (exec_op e th ah gb k opr st) = map_res N (exec_op e th ah gb k opr (N st))"
      using stable_rel [OF s1 lg] by (simp add: exec_op_def Let_def)
  qed
qed

lemma stable_level_step:
  assumes idem: "\<And>s. N (N s) = N s"
    and lg: "\<And>m s. N (log_info m s) = N (log_info m (N s))"
    and sw: "\<And>s. swapins (N s) (int k) = swapins s (int k)"
    and g: "stable N (gc e)"
    and si: "\<And>x. stable N (swapin_one e k x)"
    and ex: "\<And>x. stable N (exec_op e th ah gb k x)"
  shows "stable N (level_step e th ah gb k)"
proof -
  let ?nsl = "\<lambda>s. (case swapins s (int k) of Some x \<Rightarrow> x | None \<Rightarrow> [])"
  have s3: "stable N (\<lambda>s. Next (log_info (AvailableMemory k) s))"
    by (rule stable_Next) (rule lg)
  have s2: "stable N (\<lambda>s. and_then (for_each (exec_op e th ah gb k) (get_ops_by_level e k) s)
              (\<lambda>s. Next (log_info (AvailableMemory k) s)))"
    by (rule stable_and_then [OF stable_for_each s3]) (simp_all add: idem ex)
  have s1a: "stable N (\<lambda>s. for_each (swapin_one e k) (?nsl s) s)"
    by (rule stable_for_each_dep) (simp_all add: idem sw si)
  have s1: "stable N (\<lambda>s. and_then (for_each (swapin_one e k) (?nsl s) s)
              (\<lambda>s. and_then (for_each (exec_op e th ah gb k) (get_ops_by_level e k) s)
              (\<lambda>s. Next (log_info (AvailableMemory k) s))))"
    by (rule stable_and_then [OF s1a s2])
  have s0: "stable N (\<lambda>s. and_then (gc e s)
              (\<lambda>s. and_then (for_each (swapin_one e k) (?nsl s) s)
              (\<lambda>s. and_then (for_each (exec_op e th ah gb k) (get_ops_by_level e k) s)
              (\<lambda>s. Next (log_info (AvailableMemory k) s)))))"
    by (rule stable_and_then [OF g s1])
  show ?thesis
  proof (rule stableI)
    fix st
    show "map_res N (level_step e th ah gb k st) = map_res N (level_step e th ah gb k (N st))"
      using stable_rel [OF s0 lg] by (simp add: level_step_def Let_def)
  qed
qed

section \<open>Successive runs\<close>

lemma fe_log_info: "forget_events (log_info m s) = forget_events (log_info m (forget_events s))"
  by (simp add: forget_events_def log_info_def)

lemma fe_exec_op: "stable forget_events (exec_op e th ah gb k opr)"
  by (rule stable_exec_op)
    (simp_all add: fe_idem fe_log_info [symmetric] fe_alloc_input fe_alloc_output
      fe_consume_input fe_update_swapouts fe_gc fe_swap_out)

lemma fe_level_step: "stable forget_events (level_step e th ah gb k)"
  by (rule stable_level_step)
    (simp_all add: fe_idem fe_log_info [symmetric] fe_fields fe_gc fe_swapin_one fe_exec_op)

lemma fe_init_play:
  "forget_events (init_play th ah gb s) = forget_events (init_play th ah gb s')"
  by (simp add: init_play_def forget_events_def log_info_def reset_def Let_def)

lemma fe_play_end:
  "stable forget_events (\<lambda>st.
     (let st1 = (if plot e then log_info (GenerateDiagram th ah gb) st else st);
          st2 = log_info (SwappedOutTotal (length (swapouts st1))) st1
      in Return st2))"
  by (rule stableI) (simp add: Let_def forget_events_def log_info_def)

lemma fe_play:
  "map_res forget_events (play e th ah gb s) = map_res forget_events (play e th ah gb s')"
proof -
  have "stable forget_events (for_each (level_step e th ah gb) [0..<topo_size e])"
    by (rule stable_for_each) (simp_all add: fe_idem fe_level_step)
  then have "map_res forget_events
               (for_each (level_step e th ah gb) [0..<topo_size e] (init_play th ah gb s)) =
             map_res forget_events
               (for_each (level_step e th ah gb) [0..<topo_size e] (init_play th ah gb s'))"
    using fe_init_play by (rule stable_rel)
  then show ?thesis
    unfolding play_def using fe_play_end by (rule stable_and_then_rel)
qed

lemma outcome_forget_events:
  assumes "map_res forget_events r = map_res forget_events r'"
  shows "outcome r = outcome r'"
proof -
  have *: "\<And>a b. forget_events a = forget_events b \<Longrightarrow>
             passed a = passed b \<and> mem_traces a = mem_traces b \<and> swapouts a = swapouts b"
    by (metis fe_fields(4,5,7))
  show ?thesis
    using assms by (cases r; cases r') (auto simp add: outcome_def dest: *)
qed

text \<open>
  Claim C8. A call of \<^verbatim>\<open>play\<close> on the state that a first call with the same parameters
  left behind gives the same outcome as the first call: it returns or raises alike,
  with the same returned value, the same memory trace and the same number of tensors
  swapped out. (\<^verbatim>\<open>_reset\<close> overwrites the four fields the run reads; the messages sent
  before do not influence it.)
\<close>

theorem play_twice_same_outcome:
  "outcome (play e threshold ahead gb (sim.truncate (state_of (play e threshold ahead gb s)))) =
   outcome (play e threshold ahead gb s)"
  by (rule outcome_forget_events) (rule fe_play)

section \<open>The levels that a run starts\<close>

lemma for_each_all:
  assumes "\<And>x s. P s \<Longrightarrow> P (state_of (f x s))" "P s"
  shows "P (state_of (for_each f xs s))"
  using assms(2)
proof (induction xs arbitrary: s)
  case Nil
  then show ?case by simp
next
  case (Cons x xs)
  have "P (state_of (f x s))" using assms(1) Cons.prems by simp
  then show ?case using Cons.IH by (cases "f x s") simp_all
qed

lemma and_then_all:
  assumes "P (state_of r)" "\<And>s. P s \<Longrightarrow> P (state_of (g s))"
  shows "P (state_of (and_then r g))"
  using assms by (cases r) (simp_all add: and_then_def)

lemma levels_of_append: "levels_of (es @ es') = levels_of es @ levels_of es'"
  by (induction es rule: levels_of.induct) simp_all

lemma lv_log_info:
  "levels_of (events (log_info m st)) = levels_of (events st) @ levels_of [m]"
  by (simp add: log_info_def levels_of_append)

lemma lv_allocate: "levels_of (events (snd (allocate e nm sz lt st))) = levels_of (events st)"
  by (simp add: allocate_def do_allocate_def log_info_def Let_def levels_of_append)

lemma lv_check_ok: "events (state_of (check_ok e r)) = events (snd r)"
  by (cases r) (simp add: check_ok_def Let_def)

lemma lv_release: "levels_of (events (state_of (release e nm st))) = levels_of (events st)"
  by (simp add: release_def Let_def log_info_def levels_of_append split: option.splits)

lemma lv_gc: "levels_of (events (state_of (gc e st))) = levels_of (events st)"
  unfolding gc_def Let_def
  by (rule for_each_all [where P = "\<lambda>s. levels_of (events s) = levels_of (events st)"])
    (simp_all add: lv_release)

lemma lv_swapin_one:
  "levels_of (events (state_of (swapin_one e k nsl st))) = levels_of (events st)"
  by (cases nsl) (simp add: swapin_one_def Let_def lv_check_ok lv_allocate lv_log_info)

lemma lv_alloc_input:
  "levels_of (events (state_of (alloc_input e opr ts st))) = levels_of (events st)"
  by (simp add: alloc_input_def lv_check_ok lv_allocate split: option.splits)

lemma lv_alloc_output:
  "levels_of (events (state_of (alloc_output e ts st))) = levels_of (events st)"
  by (simp add: alloc_output_def Let_def lv_check_ok lv_allocate)

lemma lv_decr_ref: "events (state_of (decr_ref x st)) = events st"
  by (simp add: decr_ref_def split: option.splits)

lemma lv_consume_input: "events (state_of (consume_input opr ts st)) = events st"
  by (simp add: consume_input_def lv_decr_ref)

lemma lv_update_swapouts: "events (state_of (update_swapouts st)) = events st"
proof (cases "live_swapouts st (swapouts st)")
  case (Inl err)
  then show ?thesis by (simp add: update_swapouts_def)
next
  case (Inr xs)
  have "events (state_of (for_each decr_ref xs st)) = events st"
    by (rule for_each_all [where P = "\<lambda>s. events s = events st"]) (simp_all add: lv_decr_ref)
  then show ?thesis using Inr by (simp add: update_swapouts_def)
qed

lemma lv_add_swapin: "events (add_swapin e ah tsn sz dests st) = events st"
  by (simp add: add_swapin_def Let_def split: option.splits)

lemma lv_fold_add_swapin: "events (fold (add_swapin e ah tsn sz) gs st) = events st"
  by (induction gs arbitrary: st) (simp_all add: lv_add_swapin)

lemma lv_swap_out:
  "levels_of (events (state_of (swap_out e th ah gb k opr ts st))) = levels_of (events st)"
  by (simp add: swap_out_def Let_def lv_fold_add_swapin lv_log_info split: option.splits)

lemma lv_swap_out_all:
  "levels_of (events (state_of (swap_out_all e th ah gb k opr outs st))) = levels_of (events st)"
  unfolding swap_out_all_def
  by (simp, intro impI,
      rule for_each_all [where P = "\<lambda>s. levels_of (events s) = levels_of (events st)"])
    (simp_all add: lv_swap_out)

lemma lv_exec_op:
  "levels_of (events (state_of (exec_op e th ah gb k opr st))) = levels_of (events st)"
  unfolding exec_op_def Let_def
  apply (rule and_then_all [where P = "\<lambda>s. levels_of (events s) = levels_of (events st)"])
   apply (rule for_each_all [where s = "log_info (ExecuteOp k (op_name opr)) st"])
    apply (simp add: lv_alloc_input)
   apply (simp add: lv_log_info)
  apply (rule and_then_all)
   apply (rule for_each_all)
    apply (simp add: lv_alloc_output)
   apply assumption
  apply (rule and_then_all)
   apply (rule for_each_all)
    apply (simp add: lv_consume_input)
   apply assumption
  apply (rule and_then_all)
   apply (simp add: lv_update_swapouts)
  apply (rule and_then_all)
   apply (simp add: lv_gc)
  apply (simp add: lv_swap_out_all)
  done

lemma lv_level_step:
  "levels_of (events (state_of (level_step e th ah gb k st))) = levels_of (events st) @ [k]"
  unfolding level_step_def Let_def
  apply (rule and_then_all [where P = "\<lambda>s. levels_of (events s) = levels_of (events st) @ [k]"])
   apply (simp add: lv_gc lv_log_info)
  apply (rule and_then_all)
   apply (rule for_each_all)
    apply (simp add: lv_swapin_one)
   apply assumption
  apply (rule and_then_all)
   apply (rule for_each_all)
    apply (simp add: lv_exec_op)
   apply assumption
  apply (simp add: lv_log_info)
  done

lemma lv_levels:
  "\<exists>m\<le>length ks.
     levels_of (events (state_of (for_each (level_step e th ah gb) ks st))) =
       levels_of (events st) @ take m ks \<and>
     (\<not> finished (for_each (level_step e th ah gb) ks st) \<longrightarrow> m = length ks)"
proof (induction ks arbitrary: st)
  case Nil
  then show ?case by simp
next
  case (Cons k ks)
  have step: "levels_of (events (state_of (level_step e th ah gb k st))) =
              levels_of (events st) @ [k]"
    by (rule lv_level_step)
  show ?case
  proof (cases "level_step e th ah gb k st")
    case (Next s1)
    obtain m where m: "m \<le> length ks"
      "levels_of (events (state_of (for_each (level_step e th ah gb) ks s1))) =
         levels_of (events s1) @ take m ks"
      "\<not> finished (for_each (level_step e th ah gb) ks s1) \<longrightarrow> m = length ks"
      using Cons.IH [of s1] by blast
    show ?thesis
      using m step Next by (intro exI [of _ "Suc m"]) simp
  next
    case (Return s1)
    then show ?thesis using step by (intro exI [of _ "Suc 0"]) simp
  next
    case (Raise err s1)
    then show ?thesis using step by (intro exI [of _ "Suc 0"]) simp
  qed
qed

lemma finished_and_then_Return:
  "finished (and_then r (\<lambda>st. Return (h st)))"
  by (cases r) (simp_all add: and_then_def)

text \<open>
  Claim C10. Every call of \<^verbatim>\<open>play\<close> ends, by \<^verbatim>\<open>return\<close> or by an exception, and the
  levels it has started are \<open>0, \<dots>, m - 1\<close> for some \<open>m\<close> that is at most the number of
  levels: at most one iteration for each level.
\<close>

theorem play_finishes_within_levels:
  "finished (play e threshold ahead gb s) \<and>
   (\<exists>m\<le>topo_size e.
      levels_of (events (state_of (play e threshold ahead gb s))) =
        levels_of (events s) @ [0..<m])"
proof
  show "finished (play e threshold ahead gb s)"
    unfolding play_def Let_def by (rule finished_and_then_Return)
next
  let ?r = "for_each (level_step e threshold ahead gb) [0..<topo_size e]
              (init_play threshold ahead gb s)"
  obtain m where m0: "m \<le> length [0..<topo_size e]" and m2:
    "levels_of (events (state_of ?r)) =
       levels_of (events (init_play threshold ahead gb s)) @ take m [0..<topo_size e]"
    using lv_levels [of "[0..<topo_size e]" e threshold ahead gb "init_play threshold ahead gb s"]
    by blast
  have m1: "m \<le> topo_size e" using m0 by simp
  have init: "levels_of (events (init_play threshold ahead gb s)) = levels_of (events s)"
    by (simp add: init_play_def Let_def log_info_def reset_def levels_of_append)
  have tk: "take m [0..<topo_size e] = [0..<m]"
    using m1 by (simp add: take_upt)
  have "levels_of (events (state_of (play e threshold ahead gb s))) =
        levels_of (events s) @ [0..<m]"
    unfolding play_def Let_def
    apply (rule and_then_all [where P = "\<lambda>st. levels_of (events st) = levels_of (events s) @ [0..<m]"])
     apply (simp add: m2 init tk)
    apply (simp add: lv_log_info)
    done
  then show "\<exists>m\<le>topo_size e.
      levels_of (events (state_of (play e threshold ahead gb s))) =
        levels_of (events s) @ [0..<m]"
    using m1 by blast
qed

section \<open>Failed allocations and the returned value\<close>

lemma no_oom_simps:
  "no_oom []"
  "no_oom (a @ b) = (no_oom a \<and> no_oom b)"
  "no_oom (m # b) = (\<not> is_oom m \<and> no_oom b)"
  by (simp_all add: no_oom_def)

lemma oom_spec_NextI:
  assumes "events s' = events st @ es" "no_oom es" "passed s' = passed st"
  shows "oom_spec e st (Next s')"
  using assms by (auto simp add: oom_spec_def)

lemma oom_spec_RaiseI:
  assumes "events s' = events st @ es"
  shows "oom_spec e st (Raise err s')"
  using assms by (simp add: oom_spec_def)

lemma oom_spec_pre:
  assumes "oom_spec e st1 r" "events st1 = events st @ pre" "no_oom pre" "passed st1 = passed st"
  shows "oom_spec e st r"
proof -
  obtain es where es: "events (state_of r) = events st1 @ es"
    and c: "(case r of
           Next st' \<Rightarrow> passed st' = (passed st1 \<and> no_oom es) \<and> (plot e \<or> no_oom es)
         | Return st' \<Rightarrow>
             \<not> plot e \<and> \<not> passed st' \<and>
             (\<exists>es0 m. es = es0 @ [m] \<and> is_oom m \<and> no_oom es0)
         | Raise err st' \<Rightarrow> True)"
    using assms(1) unfolding oom_spec_def by blast
  have ev: "events (state_of r) = events st @ (pre @ es)" using es assms(2) by simp
  show ?thesis
  proof (cases r)
    case (Next s')
    then show ?thesis using c ev assms(3,4)
      unfolding oom_spec_def by (intro exI [of _ "pre @ es"]) (auto simp add: no_oom_simps)
  next
    case (Return s')
    then obtain es0 m where "es = es0 @ [m]" "is_oom m" "no_oom es0" using c by auto
    then have "pre @ es = (pre @ es0) @ [m] \<and> is_oom m \<and> no_oom (pre @ es0)"
      using assms(3) by (simp add: no_oom_simps)
    then show ?thesis using Return c ev
      unfolding oom_spec_def by (intro exI [of _ "pre @ es"]) auto
  next
    case (Raise err s')
    then show ?thesis using ev unfolding oom_spec_def by (intro exI [of _ "pre @ es"]) simp
  qed
qed

lemma oom_spec_and_then:
  assumes "oom_spec e st r" "\<And>s. oom_spec e s (g s)"
  shows "oom_spec e st (and_then r g)"
proof (cases r)
  case (Next s1)
  then obtain es where es: "events s1 = events st @ es"
    "passed s1 = (passed st \<and> no_oom es)" "plot e \<or> no_oom es"
    using assms(1) unfolding oom_spec_def by auto
  obtain es2 where es2: "events (state_of (g s1)) = events s1 @ es2"
    and c: "(case g s1 of
           Next st' \<Rightarrow> passed st' = (passed s1 \<and> no_oom es2) \<and> (plot e \<or> no_oom es2)
         | Return st' \<Rightarrow>
             \<not> plot e \<and> \<not> passed st' \<and>
             (\<exists>es0 m. es2 = es0 @ [m] \<and> is_oom m \<and> no_oom es0)
         | Raise err st' \<Rightarrow> True)"
    using assms(2) [of s1] unfolding oom_spec_def by blast
  have ev: "events (state_of (g s1)) = events st @ (es @ es2)" using es(1) es2 by simp
  have "oom_spec e st (g s1)"
  proof (cases "g s1")
    case (Next s2)
    then show ?thesis using c ev es
      unfolding oom_spec_def by (intro exI [of _ "es @ es2"]) (auto simp add: no_oom_simps)
  next
    case (Return s2)
    then obtain es0 m where m: "es2 = es0 @ [m]" "is_oom m" "no_oom es0" "\<not> plot e"
      using c by auto
    then have "es @ es2 = (es @ es0) @ [m] \<and> is_oom m \<and> no_oom (es @ es0)"
      using es(3) by (simp add: no_oom_simps)
    then show ?thesis using Return c ev
      unfolding oom_spec_def by (intro exI [of _ "es @ es2"]) auto
  next
    case (Raise err s2)
    then show ?thesis using ev unfolding oom_spec_def by (intro exI [of _ "es @ es2"]) simp
  qed
  then show ?thesis using Next by (simp add: and_then_def)
next
  case (Return s1)
  then show ?thesis using assms(1) by (simp add: and_then_def)
next
  case (Raise err s1)
  then show ?thesis using assms(1) by (simp add: and_then_def)
qed

lemma oom_spec_refl: "oom_spec e st (Next st)"
  by (rule oom_spec_NextI [where es = "[]"]) (simp_all add: no_oom_simps)

lemma oom_spec_for_each:
  assumes "\<And>x s. oom_spec e s (f x s)"
  shows "oom_spec e st (for_each f xs st)"
proof (induction xs arbitrary: st)
  case Nil
  then show ?case by (simp add: oom_spec_refl)
next
  case (Cons x xs)
  have "oom_spec e st (and_then (f x st) (for_each f xs))"
    by (rule oom_spec_and_then) (simp_all add: assms Cons.IH)
  then show ?case by (simp add: and_then_def)
qed

lemma oom_check_allocate:
  "oom_spec e st (check_ok e (allocate e nm sz lt st))"
proof (cases "real_of_int sz \<ge> get_free_mem e st")
  case True
  show ?thesis
  proof (cases "plot e")
    case True
    with \<open>real_of_int sz \<ge> get_free_mem e st\<close> show ?thesis
      unfolding oom_spec_def
      by (intro exI [of _ "[OOM nm sz (used_mem st) (get_free_mem e st),
            Allocated sz nm (used_mem st + sz)
              (float_sub e (max_mem e) (used_mem st + sz))]"])
        (simp add: check_ok_def allocate_def do_allocate_def log_info_def get_free_mem_def
          Let_def no_oom_simps)
  next
    case False
    with \<open>real_of_int sz \<ge> get_free_mem e st\<close> show ?thesis
      unfolding oom_spec_def
      by (intro exI [of _ "[OOM nm sz (used_mem st) (get_free_mem e st)]"])
        (simp add: check_ok_def allocate_def do_allocate_def log_info_def get_free_mem_def
          Let_def no_oom_simps)
  qed
next
  case False
  then show ?thesis
    unfolding oom_spec_def
    by (intro exI [of _ "[Allocated sz nm (used_mem st + sz)
              (float_sub e (max_mem e) (used_mem st + sz))]"])
      (simp add: check_ok_def allocate_def do_allocate_def log_info_def get_free_mem_def
        Let_def no_oom_simps)
qed

lemma oom_swapin_one: "oom_spec e st (swapin_one e k nsl st)"
proof (cases nsl)
  case (fields nm sz lt)
  show ?thesis
    unfolding swapin_one_def fields prod.case Let_def
    by (rule oom_spec_pre [OF oom_check_allocate, where pre = "[SwappedIn k nm]"])
      (simp_all add: log_info_def no_oom_simps)
qed

lemma oom_alloc_input: "oom_spec e st (alloc_input e opr ts st)"
  unfolding alloc_input_def
  by (auto simp add: oom_spec_refl oom_check_allocate split: option.splits
      intro: oom_spec_RaiseI [where es = "[]"])

lemma oom_alloc_output: "oom_spec e st (alloc_output e ts st)"
  unfolding alloc_output_def Let_def
  by (simp add: oom_spec_refl oom_check_allocate)

lemma oom_decr_ref: "oom_spec e st (decr_ref x st)"
  unfolding decr_ref_def
  by (auto split: option.splits
      intro: oom_spec_RaiseI [where es = "[]"] oom_spec_NextI [where es = "[]"]
      simp add: no_oom_simps)

lemma oom_consume_input: "oom_spec e st (consume_input opr ts st)"
  unfolding consume_input_def by (rule oom_decr_ref)

lemma oom_update_swapouts: "oom_spec e st (update_swapouts st)"
  unfolding update_swapouts_def
  by (auto split: sum.splits intro: oom_spec_RaiseI [where es = "[]"] oom_spec_for_each
      oom_decr_ref)

lemma oom_release: "oom_spec e st (release e' nm st)"
  unfolding release_def Let_def
  by (auto split: option.splits simp add: log_info_def no_oom_simps
      intro: oom_spec_RaiseI [where es = "[]"] 
        oom_spec_NextI [where es = "[Released sz nm u f]" for sz u f])

lemma oom_gc: "oom_spec e st (gc e' st)"
  unfolding gc_def Let_def by (rule oom_spec_for_each) (rule oom_release)

lemma passed_fold_add_swapin: "passed (fold (add_swapin e ah tsn sz) gs st) = passed st"
  by (induction gs arbitrary: st) (simp_all add: add_swapin_def Let_def split: option.splits)

lemma oom_swap_out: "oom_spec e st (swap_out e th ah gb k opr ts st)"
  unfolding swap_out_def Let_def
  by (auto split: option.splits
      simp add: lv_fold_add_swapin passed_fold_add_swapin log_info_def no_oom_simps
      intro: oom_spec_RaiseI [where es = "[]"] oom_spec_NextI [where es = "[]"]
        oom_spec_NextI [where es = "[SwappedOut k (t_name ts)]"])

lemma oom_swap_out_all: "oom_spec e st (swap_out_all e th ah gb k opr outs st)"
  unfolding swap_out_all_def
  by (simp add: oom_spec_refl oom_spec_for_each oom_swap_out)

lemma oom_exec_op: "oom_spec e st (exec_op e th ah gb k opr st)"
  unfolding exec_op_def Let_def
  apply (rule oom_spec_pre [where pre = "[ExecuteOp k (op_name opr)]"
        and ?st1.0 = "log_info (ExecuteOp k (op_name opr)) st"])
     apply (rule oom_spec_and_then)
      apply (rule oom_spec_for_each)
      apply (rule oom_alloc_input)
     apply (rule oom_spec_and_then)
      apply (rule oom_spec_for_each)
      apply (rule oom_alloc_output)
     apply (rule oom_spec_and_then)
      apply (rule oom_spec_for_each)
      apply (rule oom_consume_input)
     apply (rule oom_spec_and_then)
      apply (rule oom_update_swapouts)
     apply (rule oom_spec_and_then)
      apply (rule oom_gc)
     apply (rule oom_swap_out_all)
    apply (simp_all add: log_info_def no_oom_simps)
  done

lemma oom_level_step: "oom_spec e st (level_step e th ah gb k st)"
  unfolding level_step_def Let_def
  apply (rule oom_spec_pre [where pre = "[SimulateLevel k]"
        and ?st1.0 = "log_info (SimulateLevel k) st"])
     apply (rule oom_spec_and_then)
      apply (rule oom_gc)
     apply (rule oom_spec_and_then)
      apply (rule oom_spec_for_each)
      apply (rule oom_swapin_one)
     apply (rule oom_spec_and_then)
      apply (rule oom_spec_for_each)
      apply (rule oom_exec_op)
     apply (rule oom_spec_NextI [where es = "[AvailableMemory k]"])
       apply (simp_all add: log_info_def no_oom_simps)
  done

lemma oom_levels:
  "oom_spec e (init_play th ah gb s)
     (for_each (level_step e th ah gb) ks (init_play th ah gb s))"
  by (rule oom_spec_for_each) (rule oom_level_step)

lemma allocate_oom_message:
  "\<exists>es. events (snd (allocate e nm sz lt st)) = events st @ es \<and>
        no_oom es = fst (allocate e nm sz lt st)"
  by (simp add: allocate_def do_allocate_def log_info_def Let_def no_oom_simps)

subsection \<open>Runs with plotting enabled do not depend on the capacity\<close>

lemma agreeI: "(\<And>a b. N a = N b \<Longrightarrow> map_res N (f a) = map_res N (g b)) \<Longrightarrow> agree N f g"
  by (simp add: agree_def)

lemma agreeD: "agree N f g \<Longrightarrow> N a = N b \<Longrightarrow> map_res N (f a) = map_res N (g b)"
  by (simp add: agree_def)

lemma agree_for_each_rel:
  assumes "\<And>x. x \<in> set xs \<Longrightarrow> agree N (f x) (g x)" "N a = N b"
  shows "map_res N (for_each f xs a) = map_res N (for_each g xs b)"
  using assms
proof (induction xs arbitrary: a b)
  case Nil
  then show ?case by simp
next
  case (Cons x xs)
  have ag: "agree N (f x) (g x)" using Cons.prems(1) by simp
  have eq: "map_res N (f x a) = map_res N (g x b)"
    using ag Cons.prems(2) by (rule agreeD)
  show ?case
  proof (cases "f x a")
    case (Next s)
    then obtain s' where s': "g x b = Next s'" "N s = N s'"
      using eq by (cases "g x b"; simp)
    have "map_res N (for_each f xs s) = map_res N (for_each g xs s')"
      using Cons.IH [OF _ s'(2)] Cons.prems(1) by simp
    then show ?thesis using Next s' by simp
  next
    case (Return s)
    then show ?thesis using eq by (cases "g x b"; simp)
  next
    case (Raise err s)
    then show ?thesis using eq by (cases "g x b"; simp)
  qed
qed

lemma agree_for_each:
  assumes "\<And>x. agree N (f x) (g x)"
  shows "agree N (for_each f xs) (for_each g xs)"
  by (rule agreeI) (rule agree_for_each_rel, simp_all add: assms)

lemma agree_and_then_rel:
  assumes "map_res N r = map_res N r'" "agree N f g"
  shows "map_res N (and_then r f) = map_res N (and_then r' g)"
proof (cases r)
  case (Next s)
  then obtain s' where s': "r' = Next s'" "N s = N s'"
    using assms(1) by (cases r'; simp)
  show ?thesis using Next s'(1) agreeD [OF assms(2) s'(2)] by (simp add: and_then_def)
next
  case (Return s)
  then show ?thesis using assms(1) by (cases r'; simp add: and_then_def)
next
  case (Raise err s)
  then show ?thesis using assms(1) by (cases r'; simp add: and_then_def)
qed

lemma agree_and_then:
  assumes "agree N f1 g1" "agree N f2 g2"
  shows "agree N (\<lambda>s. and_then (f1 s) f2) (\<lambda>s. and_then (g1 s) g2)"
proof (rule agreeI)
  fix a b :: 'a
  assume "N a = N b"
  with assms(1) have "map_res N (f1 a) = map_res N (g1 b)" by (rule agreeD)
  then show "map_res N (and_then (f1 a) f2) = map_res N (and_then (g1 b) g2)"
    using assms(2) by (rule agree_and_then_rel)
qed

text \<open>\<open>forget_flag\<close> keeps every field but the messages and the flag.\<close>

lemma forget_flag_eq:
  "(forget_flag a = forget_flag b) =
     (mem a = mem b \<and> used_mem a = used_mem b \<and> mem_traces a = mem_traces b \<and>
      ref_counts a = ref_counts b \<and> swapouts a = swapouts b \<and> swapins a = swapins b \<and>
      ts_size a = ts_size b)"
  by (cases a; cases b) (auto simp add: forget_flag_def)

lemma ff_check_alloc:
  assumes "plot e" "forget_flag a = forget_flag b"
  shows "map_res forget_flag (check_ok e (allocate e nm sz lt a)) =
         map_res forget_flag
           (check_ok (e\<lparr>max_mem := M, float_sub := F\<rparr>)
              (allocate (e\<lparr>max_mem := M, float_sub := F\<rparr>) nm sz lt b))"
  using assms
  by (simp add: forget_flag_eq check_ok_def allocate_def do_allocate_def log_info_def Let_def)

lemma ff_log_info:
  "forget_flag a = forget_flag b \<Longrightarrow> forget_flag (log_info m a) = forget_flag (log_info m' b)"
  by (simp add: forget_flag_eq log_info_def)

lemma ff_swapin_one:
  assumes "plot e"
  shows "agree forget_flag (swapin_one e k nsl)
           (swapin_one (e\<lparr>max_mem := M, float_sub := F\<rparr>) k nsl)"
proof (rule agreeI)
  fix a b :: play_state
  assume ab: "forget_flag a = forget_flag b"
  obtain nm sz lt where nsl: "nsl = (nm, sz, lt)" by (cases nsl)
  have "forget_flag (log_info (SwappedIn k nm) (a\<lparr>ts_size := Some sz\<rparr>)) =
        forget_flag (log_info (SwappedIn k nm) (b\<lparr>ts_size := Some sz\<rparr>))"
    using ab by (simp add: forget_flag_eq log_info_def)
  then show "map_res forget_flag (swapin_one e k nsl a) =
        map_res forget_flag (swapin_one (e\<lparr>max_mem := M, float_sub := F\<rparr>) k nsl b)"
    unfolding swapin_one_def nsl prod.case Let_def
    by (rule ff_check_alloc [OF assms])
qed

lemma ff_is_swapin:
  "forget_flag a = forget_flag b \<Longrightarrow> is_swapin_tensor a tsn opn = is_swapin_tensor b tsn opn"
  by (simp add: forget_flag_eq is_swapin_tensor_def)

lemma ff_alloc_input:
  assumes "plot e"
  shows "agree forget_flag (alloc_input e opr ts)
           (alloc_input (e\<lparr>max_mem := M, float_sub := F\<rparr>) opr ts)"
proof (rule agreeI)
  fix a b :: play_state
  assume ab: "forget_flag a = forget_flag b"
  have f: "mem a = mem b" "ts_size a = ts_size b" using ab by (simp_all add: forget_flag_eq)
  show "map_res forget_flag (alloc_input e opr ts a) =
        map_res forget_flag (alloc_input (e\<lparr>max_mem := M, float_sub := F\<rparr>) opr ts b)"
    unfolding alloc_input_def ff_is_swapin [OF ab] f
    using ab ff_check_alloc [OF assms ab]
    by (simp split: option.splits)
qed

lemma ff_alloc_output:
  assumes "plot e"
  shows "agree forget_flag (alloc_output e ts)
           (alloc_output (e\<lparr>max_mem := M, float_sub := F\<rparr>) ts)"
proof (rule agreeI)
  fix a b :: play_state
  assume ab: "forget_flag a = forget_flag b"
  show "map_res forget_flag (alloc_output e ts a) =
        map_res forget_flag (alloc_output (e\<lparr>max_mem := M, float_sub := F\<rparr>) ts b)"
    unfolding alloc_output_def Let_def
    using ab ff_check_alloc [OF assms ab]
    by simp
qed

lemma ff_release:
  "agree forget_flag (release e nm) (release (e\<lparr>max_mem := M, float_sub := F\<rparr>) nm)"
  by (rule agreeI)
    (simp add: forget_flag_eq release_def Let_def log_info_def split: option.splits)

lemma ff_gc: "agree forget_flag (gc e) (gc (e\<lparr>max_mem := M, float_sub := F\<rparr>))"
proof (rule agreeI)
  fix a b :: play_state
  assume ab: "forget_flag a = forget_flag b"
  have f: "ref_counts a = ref_counts b" using ab by (simp add: forget_flag_eq)
  show "map_res forget_flag (gc e a) =
        map_res forget_flag (gc (e\<lparr>max_mem := M, float_sub := F\<rparr>) b)"
    unfolding gc_def Let_def f
    by (rule agree_for_each_rel) (simp_all add: ff_release ab)
qed

lemma ff_decr_ref: "agree forget_flag (decr_ref x) (decr_ref x)"
  by (rule agreeI) (simp add: forget_flag_eq decr_ref_def split: option.splits)

lemma ff_consume_input: "agree forget_flag (consume_input opr ts) (consume_input opr ts)"
proof (rule agreeI)
  fix a b :: play_state
  assume ab: "forget_flag a = forget_flag b"
  show "map_res forget_flag (consume_input opr ts a) = map_res forget_flag (consume_input opr ts b)"
    unfolding consume_input_def ff_is_swapin [OF ab]
    using ff_decr_ref ab by (rule agreeD)
qed

lemma ff_live_swapouts:
  "forget_flag a = forget_flag b \<Longrightarrow> live_swapouts a xs = live_swapouts b xs"
  by (induction xs) (simp_all add: forget_flag_eq split: option.splits)

lemma ff_update_swapouts: "agree forget_flag update_swapouts update_swapouts"
proof (rule agreeI)
  fix a b :: play_state
  assume ab: "forget_flag a = forget_flag b"
  have f: "swapouts a = swapouts b" using ab by (simp add: forget_flag_eq)
  show "map_res forget_flag (update_swapouts a) = map_res forget_flag (update_swapouts b)"
  proof (cases "live_swapouts b (swapouts b)")
    case (Inl err)
    then show ?thesis using ab by (simp add: update_swapouts_def ff_live_swapouts [OF ab] f)
  next
    case (Inr xs)
    have "map_res forget_flag (for_each decr_ref xs a) =
          map_res forget_flag (for_each decr_ref xs b)"
      by (rule agree_for_each_rel) (simp_all add: ff_decr_ref ab)
    then show ?thesis using Inr by (simp add: update_swapouts_def ff_live_swapouts [OF ab] f)
  qed
qed

lemma ff_fold_add_swapin:
  "forget_flag a = forget_flag b \<Longrightarrow>
   forget_flag (fold (add_swapin e ah tsn sz) gs a) =
   forget_flag (fold (add_swapin (e\<lparr>max_mem := M, float_sub := F\<rparr>) ah tsn sz) gs b)"
proof (induction gs arbitrary: a b)
  case Nil
  then show ?case by simp
next
  case (Cons g gs)
  have "forget_flag (add_swapin e ah tsn sz g a) =
        forget_flag (add_swapin (e\<lparr>max_mem := M, float_sub := F\<rparr>) ah tsn sz g b)"
    using Cons.prems by (simp add: forget_flag_eq add_swapin_def Let_def split: option.splits)
  then show ?case using Cons.IH by simp
qed

lemma ff_swap_out:
  "agree forget_flag (swap_out e th ah gb k opr ts)
     (swap_out (e\<lparr>max_mem := M, float_sub := F\<rparr>) th ah gb k opr ts)"
proof (rule agreeI)
  fix a b :: play_state
  assume ab: "forget_flag a = forget_flag b"
  have f: "ref_counts a = ref_counts b" using ab by (simp add: forget_flag_eq)
  have d: "dest_ops_of (e\<lparr>max_mem := M, float_sub := F\<rparr>) th opr ts = dest_ops_of e th opr ts"
    by (simp add: dest_ops_of_def)
  have st1: "forget_flag (a\<lparr>ts_size := Some (t_size ts)\<rparr>) =
             forget_flag (b\<lparr>ts_size := Some (t_size ts)\<rparr>)"
    using ab by (simp add: forget_flag_eq)
  have st5: "forget_flag
       (log_info (SwappedOut k (t_name ts))
         (a\<lparr>ts_size := Some (t_size ts),
             ref_counts := AList.update (t_name ts) c2 (AList.update (t_name ts) c1 (ref_counts a)),
             swapouts := set_add (t_name ts) (swapouts a)\<rparr>)) =
     forget_flag
       (log_info (SwappedOut k (t_name ts))
         (b\<lparr>ts_size := Some (t_size ts),
             ref_counts := AList.update (t_name ts) c2 (AList.update (t_name ts) c1 (ref_counts b)),
             swapouts := set_add (t_name ts) (swapouts b)\<rparr>))" for c1 c2
    using ab by (simp add: forget_flag_eq log_info_def)
  show "map_res forget_flag (swap_out e th ah gb k opr ts a) =
        map_res forget_flag (swap_out (e\<lparr>max_mem := M, float_sub := F\<rparr>) th ah gb k opr ts b)"
    unfolding swap_out_def Let_def d
    using ab st1 ff_fold_add_swapin [OF st5]
    by (simp add: f split: option.splits)
qed

lemma ff_swap_out_all:
  "agree forget_flag (swap_out_all e th ah gb k opr outs)
     (swap_out_all (e\<lparr>max_mem := M, float_sub := F\<rparr>) th ah gb k opr outs)"
proof (rule agreeI)
  fix a b :: play_state
  assume ab: "forget_flag a = forget_flag b"
  have "map_res forget_flag (for_each (swap_out e th ah gb k opr) outs a) =
        map_res forget_flag
          (for_each (swap_out (e\<lparr>max_mem := M, float_sub := F\<rparr>) th ah gb k opr) outs b)"
    by (rule agree_for_each_rel) (simp_all add: ff_swap_out ab)
  then show "map_res forget_flag (swap_out_all e th ah gb k opr outs a) =
        map_res forget_flag
          (swap_out_all (e\<lparr>max_mem := M, float_sub := F\<rparr>) th ah gb k opr outs b)"
    using ab by (simp add: swap_out_all_def)
qed

lemma ff_exec_op:
  assumes "plot e"
  shows "agree forget_flag (exec_op e th ah gb k opr)
           (exec_op (e\<lparr>max_mem := M, float_sub := F\<rparr>) th ah gb k opr)"
proof (rule agreeI)
  fix a b :: play_state
  assume ab: "forget_flag a = forget_flag b"
  let ?e' = "e\<lparr>max_mem := M, float_sub := F\<rparr>"
  let ?ins = "remdups (op_inputs opr)" and ?outs = "remdups (op_outputs opr)"
  have s5: "agree forget_flag
      (\<lambda>s. and_then (gc e s) (swap_out_all e th ah gb k opr ?outs))
      (\<lambda>s. and_then (gc ?e' s) (swap_out_all ?e' th ah gb k opr ?outs))"
    by (rule agree_and_then [OF ff_gc ff_swap_out_all])
  have s4: "agree forget_flag
      (\<lambda>s. and_then (update_swapouts s)
         (\<lambda>s. and_then (gc e s) (swap_out_all e th ah gb k opr ?outs)))
      (\<lambda>s. and_then (update_swapouts s)
         (\<lambda>s. and_then (gc ?e' s) (swap_out_all ?e' th ah gb k opr ?outs)))"
    by (rule agree_and_then [OF ff_update_swapouts s5])
  have s3: "agree forget_flag
      (\<lambda>s. and_then (for_each (consume_input opr) ?ins s)
         (\<lambda>s. and_then (update_swapouts s)
         (\<lambda>s. and_then (gc e s) (swap_out_all e th ah gb k opr ?outs))))
      (\<lambda>s. and_then (for_each (consume_input opr) ?ins s)
         (\<lambda>s. and_then (update_swapouts s)
         (\<lambda>s. and_then (gc ?e' s) (swap_out_all ?e' th ah gb k opr ?outs))))"
    by (rule agree_and_then [OF agree_for_each s4]) (rule ff_consume_input)
  have s2: "agree forget_flag
      (\<lambda>s. and_then (for_each (alloc_output e) ?outs s)
         (\<lambda>s. and_then (for_each (consume_input opr) ?ins s)
         (\<lambda>s. and_then (update_swapouts s)
         (\<lambda>s. and_then (gc e s) (swap_out_all e th ah gb k opr ?outs)))))
      (\<lambda>s. and_then (for_each (alloc_output ?e') ?outs s)
         (\<lambda>s. and_then (for_each (consume_input opr) ?ins s)
         (\<lambda>s. and_then (update_swapouts s)
         (\<lambda>s. and_then (gc ?e' s) (swap_out_all ?e' th ah gb k opr ?outs)))))"
    by (rule agree_and_then [OF agree_for_each s3]) (rule ff_alloc_output [OF assms])
  have s1: "agree forget_flag
      (\<lambda>s. and_then (for_each (alloc_input e opr) ?ins s)
         (\<lambda>s. and_then (for_each (alloc_output e) ?outs s)
         (\<lambda>s. and_then (for_each (consume_input opr) ?ins s)
         (\<lambda>s. and_then (update_swapouts s)
         (\<lambda>s. and_then (gc e s) (swap_out_all e th ah gb k opr ?outs))))))
      (\<lambda>s. and_then (for_each (alloc_input ?e' opr) ?ins s)
         (\<lambda>s. and_then (for_each (alloc_output ?e') ?outs s)
         (\<lambda>s. and_then (for_each (consume_input opr) ?ins s)
         (\<lambda>s. and_then (update_swapouts s)
         (\<lambda>s. and_then (gc ?e' s) (swap_out_all ?e' th ah gb k opr ?outs))))))"
    by (rule agree_and_then [OF agree_for_each s2]) (rule ff_alloc_input [OF assms])
  have lg: "forget_flag (log_info (ExecuteOp k (op_name opr)) a) =
            forget_flag (log_info (ExecuteOp k (op_name opr)) b)"
    using ab by (rule ff_log_info)
  show "map_res forget_flag (exec_op e th ah gb k opr a) =
        map_res forget_flag (exec_op ?e' th ah gb k opr b)"
    using agreeD [OF s1 lg] by (simp add: exec_op_def Let_def)
qed

lemma ff_level_step:
  assumes "plot e"
  shows "agree forget_flag (level_step e th ah gb k)
           (level_step (e\<lparr>max_mem := M, float_sub := F\<rparr>) th ah gb k)"
proof (rule agreeI)
  fix a b :: play_state
  assume ab: "forget_flag a = forget_flag b"
  let ?e' = "e\<lparr>max_mem := M, float_sub := F\<rparr>"
  let ?nsl = "\<lambda>s. (case swapins s (int k) of Some x \<Rightarrow> x | None \<Rightarrow> [])"
  let ?ops = "get_ops_by_level e k"
  have s3: "agree forget_flag (\<lambda>s. Next (log_info (AvailableMemory k) s))
              (\<lambda>s. Next (log_info (AvailableMemory k) s))"
    by (rule agreeI) (simp add: ff_log_info)
  have s2: "agree forget_flag
      (\<lambda>s. and_then (for_each (exec_op e th ah gb k) ?ops s)
         (\<lambda>s. Next (log_info (AvailableMemory k) s)))
      (\<lambda>s. and_then (for_each (exec_op ?e' th ah gb k) ?ops s)
         (\<lambda>s. Next (log_info (AvailableMemory k) s)))"
    by (rule agree_and_then [OF agree_for_each s3]) (rule ff_exec_op [OF assms])
  have s1a: "agree forget_flag (\<lambda>s. for_each (swapin_one e k) (?nsl s) s)
               (\<lambda>s. for_each (swapin_one ?e' k) (?nsl s) s)"
  proof (rule agreeI)
    fix c d :: play_state
    assume cd: "forget_flag c = forget_flag d"
    have n: "?nsl c = ?nsl d" using cd by (simp add: forget_flag_eq)
    show "map_res forget_flag (for_each (swapin_one e k) (?nsl c) c) =
          map_res forget_flag (for_each (swapin_one ?e' k) (?nsl d) d)"
      unfolding n by (rule agree_for_each_rel) (simp_all add: ff_swapin_one [OF assms] cd)
  qed
  have s1: "agree forget_flag
      (\<lambda>s. and_then (for_each (swapin_one e k) (?nsl s) s)
         (\<lambda>s. and_then (for_each (exec_op e th ah gb k) ?ops s)
         (\<lambda>s. Next (log_info (AvailableMemory k) s))))
      (\<lambda>s. and_then (for_each (swapin_one ?e' k) (?nsl s) s)
         (\<lambda>s. and_then (for_each (exec_op ?e' th ah gb k) ?ops s)
         (\<lambda>s. Next (log_info (AvailableMemory k) s))))"
    by (rule agree_and_then [OF s1a s2])
  have s0: "agree forget_flag
      (\<lambda>s. and_then (gc e s)
         (\<lambda>s. and_then (for_each (swapin_one e k) (?nsl s) s)
         (\<lambda>s. and_then (for_each (exec_op e th ah gb k) ?ops s)
         (\<lambda>s. Next (log_info (AvailableMemory k) s)))))
      (\<lambda>s. and_then (gc ?e' s)
         (\<lambda>s. and_then (for_each (swapin_one ?e' k) (?nsl s) s)
         (\<lambda>s. and_then (for_each (exec_op ?e' th ah gb k) ?ops s)
         (\<lambda>s. Next (log_info (AvailableMemory k) s)))))"
    by (rule agree_and_then [OF ff_gc s1])
  have lg: "forget_flag (log_info (SimulateLevel k) a) =
            forget_flag (log_info (SimulateLevel k) b)"
    using ab by (rule ff_log_info)
  show "map_res forget_flag (level_step e th ah gb k a) =
        map_res forget_flag (level_step ?e' th ah gb k b)"
    using agreeD [OF s0 lg] by (simp add: level_step_def Let_def)
qed

lemma ff_play:
  assumes "plot e"
  shows "map_res forget_flag (play e th ah gb s) =
         map_res forget_flag (play (e\<lparr>max_mem := M, float_sub := F\<rparr>) th ah gb s)"
proof -
  let ?e' = "e\<lparr>max_mem := M, float_sub := F\<rparr>"
  have l: "map_res forget_flag
             (for_each (level_step e th ah gb) [0..<topo_size e] (init_play th ah gb s)) =
           map_res forget_flag
             (for_each (level_step ?e' th ah gb) [0..<topo_size e] (init_play th ah gb s))"
    by (rule agree_for_each_rel) (simp_all add: ff_level_step [OF assms])
  have fin: "agree forget_flag
      (\<lambda>st. (let st1 = (if plot e then log_info (GenerateDiagram th ah gb) st else st);
                 st2 = log_info (SwappedOutTotal (length (swapouts st1))) st1
             in Return st2))
      (\<lambda>st. (let st1 = (if plot ?e' then log_info (GenerateDiagram th ah gb) st else st);
                 st2 = log_info (SwappedOutTotal (length (swapouts st1))) st1
             in Return st2))"
    by (rule agreeI) (simp add: Let_def forget_flag_eq log_info_def)
  show ?thesis
    using agree_and_then_rel [OF l fin] by (simp add: play_def)
qed

lemma ff_play_fields:
  assumes "plot e" "play e th ah gb s = Return st'"
  shows "returned (play (e\<lparr>max_mem := M, float_sub := F\<rparr>) th ah gb s) \<and>
         mem_traces (state_of (play (e\<lparr>max_mem := M, float_sub := F\<rparr>) th ah gb s)) =
           mem_traces st' \<and>
         mem (state_of (play (e\<lparr>max_mem := M, float_sub := F\<rparr>) th ah gb s)) = mem st' \<and>
         ref_counts (state_of (play (e\<lparr>max_mem := M, float_sub := F\<rparr>) th ah gb s)) =
           ref_counts st' \<and>
         used_mem (state_of (play (e\<lparr>max_mem := M, float_sub := F\<rparr>) th ah gb s)) =
           used_mem st' \<and>
         swapouts (state_of (play (e\<lparr>max_mem := M, float_sub := F\<rparr>) th ah gb s)) =
           swapouts st'"
proof -
  let ?r = "play (e\<lparr>max_mem := M, float_sub := F\<rparr>) th ah gb s"
  have "map_res forget_flag ?r = Return (forget_flag st')"
    using ff_play [OF assms(1), where th = th and ah = ah and gb = gb and s = s
        and M = M and F = F] assms(2) by simp
  then obtain st2 where r: "?r = Return st2" and eq: "forget_flag st2 = forget_flag st'"
    by (cases ?r) simp_all
  show ?thesis using eq unfolding r by (simp add: forget_flag_eq)
qed

subsection \<open>The returned value\<close>

lemma returned_eq: "returned r \<Longrightarrow> r = Return (state_of r)"
  by (cases r) simp_all

lemma levels_all_of_Next:
  assumes "for_each (level_step e th ah gb) ks st = Next st1"
  shows "levels_of (events st1) = levels_of (events st) @ ks"
  using lv_levels [of ks e th ah gb st] assms by auto

text \<open>
  Claim C5. Let \<^verbatim>\<open>play\<close> return, and let \<open>es\<close> be the messages it has sent. The value
  returned is false exactly if \<open>es\<close> has an out-of-memory message, that is, if a call of
  \<^verbatim>\<open>_allocate\<close> failed (\<^verbatim>\<open>_allocate\<close> sends that message exactly when it returns false).
  With plotting disabled, a run that returns false has stopped at its first failed
  allocation: the out-of-memory message is its last message and its only one. With
  plotting enabled the run has started every level and reached the end of \<^verbatim>\<open>play\<close>,
  whatever value it returns, and no failed allocation has cut the simulation short:
  the trace, the resident map, the reference counts, the used bytes and the set of
  swapped-out tensors it ends with are those that the same call ends with under any
  other capacity, hence also under one that lets every allocation succeed.
\<close>

theorem play_fails_iff_allocate_failed:
  "play e threshold ahead gb s = Return st' \<Longrightarrow>
   (\<exists>es. events st' = events s @ es \<and>
      passed st' = no_oom es \<and>
      (\<not> plot e \<and> \<not> passed st' \<longrightarrow>
         (\<exists>es0 m. es = es0 @ [m] \<and> is_oom m \<and> no_oom es0)) \<and>
      (plot e \<longrightarrow>
         levels_of es = [0..<topo_size e] \<and>
         (\<exists>es0. es = es0 @ [SwappedOutTotal (length (swapouts st'))]))) \<and>
   (\<forall>nm sz lt st. \<exists>es.
      events (snd (allocate e nm sz lt (st :: play_state))) = events st @ es \<and>
      no_oom es = fst (allocate e nm sz lt st)) \<and>
   (plot e \<longrightarrow>
      (\<forall>M F.
         returned (play (e\<lparr>max_mem := M, float_sub := F\<rparr>) threshold ahead gb s) \<and>
         mem_traces (state_of (play (e\<lparr>max_mem := M, float_sub := F\<rparr>) threshold ahead gb s)) =
           mem_traces st' \<and>
         mem (state_of (play (e\<lparr>max_mem := M, float_sub := F\<rparr>) threshold ahead gb s)) =
           mem st' \<and>
         ref_counts (state_of (play (e\<lparr>max_mem := M, float_sub := F\<rparr>) threshold ahead gb s)) =
           ref_counts st' \<and>
         used_mem (state_of (play (e\<lparr>max_mem := M, float_sub := F\<rparr>) threshold ahead gb s)) =
           used_mem st' \<and>
         swapouts (state_of (play (e\<lparr>max_mem := M, float_sub := F\<rparr>) threshold ahead gb s)) =
           swapouts st'))"
proof
  assume ret: "play e threshold ahead gb s = Return st'"
  let ?init = "init_play threshold ahead gb s"
  let ?r0 = "for_each (level_step e threshold ahead gb) [0..<topo_size e] ?init"
  have init_ev: "events ?init = events s @ [Simulating threshold ahead gb]"
    and init_passed: "passed ?init"
    by (simp_all add: init_play_def Let_def log_info_def reset_def)
  obtain es1 where ev1: "events (state_of ?r0) = events ?init @ es1"
    and c: "(case ?r0 of
           Next st' \<Rightarrow> passed st' = (passed ?init \<and> no_oom es1) \<and> (plot e \<or> no_oom es1)
         | Return st' \<Rightarrow>
             \<not> plot e \<and> \<not> passed st' \<and>
             (\<exists>es0 m. es1 = es0 @ [m] \<and> is_oom m \<and> no_oom es0)
         | Raise err st' \<Rightarrow> True)"
    using oom_levels [of e threshold ahead gb s "[0..<topo_size e]"]
    unfolding oom_spec_def by blast
  show "\<exists>es. events st' = events s @ es \<and>
      passed st' = no_oom es \<and>
      (\<not> plot e \<and> \<not> passed st' \<longrightarrow>
         (\<exists>es0 m. es = es0 @ [m] \<and> is_oom m \<and> no_oom es0)) \<and>
      (plot e \<longrightarrow>
         levels_of es = [0..<topo_size e] \<and>
         (\<exists>es0. es = es0 @ [SwappedOutTotal (length (swapouts st'))]))"
  proof (cases ?r0)
    case (Next st1)
    have p1: "passed st1 = no_oom es1" and q1: "plot e \<or> no_oom es1"
      using c Next init_passed by simp_all
    have e1: "events st1 = events s @ Simulating threshold ahead gb # es1"
      using ev1 Next init_ev by simp
    have lv: "levels_of es1 = [0..<topo_size e]"
    proof -
      have "levels_of (events st1) = levels_of (events ?init) @ [0..<topo_size e]"
        using Next by (rule levels_all_of_Next)
      then show ?thesis using e1 init_ev by (simp add: levels_of_append)
    qed
    let ?tl = "(if plot e then [GenerateDiagram threshold ahead gb] else []) @
               [SwappedOutTotal (length (swapouts st1))]"
    have st': "events st' = events st1 @ ?tl" "passed st' = passed st1"
      "swapouts st' = swapouts st1"
      using ret Next by (cases "plot e"; auto simp add: play_def and_then_def Let_def log_info_def)+
    show ?thesis
    proof (rule exI [of _ "Simulating threshold ahead gb # es1 @ ?tl"], intro conjI impI)
      show "events st' = events s @ Simulating threshold ahead gb # es1 @ ?tl"
        using st'(1) e1 by simp
      show "passed st' = no_oom (Simulating threshold ahead gb # es1 @ ?tl)"
        using st'(2) p1 by (simp add: no_oom_simps)
      show "\<exists>es0 m. Simulating threshold ahead gb # es1 @ ?tl = es0 @ [m] \<and> is_oom m \<and> no_oom es0"
        if "\<not> plot e \<and> \<not> passed st'"
        using that q1 p1 st'(2) by simp
      show "levels_of (Simulating threshold ahead gb # es1 @ ?tl) = [0..<topo_size e]"
        using lv by (simp add: levels_of_append)
      show "\<exists>es0. Simulating threshold ahead gb # es1 @ ?tl =
              es0 @ [SwappedOutTotal (length (swapouts st'))]"
        by (rule exI [of _ "Simulating threshold ahead gb # es1 @
              (if plot e then [GenerateDiagram threshold ahead gb] else [])"])
          (simp add: st'(3))
    qed
  next
    case (Return st1)
    have st': "st' = st1" using ret Return by (simp add: play_def and_then_def)
    obtain es0 m where m: "es1 = es0 @ [m]" "is_oom m" "no_oom es0"
      and np: "\<not> plot e" "\<not> passed st1"
      using c Return by auto
    show ?thesis
    proof (rule exI [of _ "Simulating threshold ahead gb # es1"], intro conjI impI)
      show "events st' = events s @ Simulating threshold ahead gb # es1"
        using ev1 Return init_ev st' by simp
      show "passed st' = no_oom (Simulating threshold ahead gb # es1)"
        using np(2) m st' by (simp add: no_oom_simps)
      show "\<exists>es0 m. Simulating threshold ahead gb # es1 = es0 @ [m] \<and> is_oom m \<and> no_oom es0"
        using m by (intro exI [of _ "Simulating threshold ahead gb # es0"] exI [of _ m])
          (simp add: no_oom_simps)
      show "levels_of (Simulating threshold ahead gb # es1) = [0..<topo_size e]" if "plot e"
        using that np(1) by simp
      show "\<exists>es0. Simulating threshold ahead gb # es1 =
              es0 @ [SwappedOutTotal (length (swapouts st'))]" if "plot e"
        using that np(1) by simp
    qed
  next
    case (Raise err st1)
    then show ?thesis using ret by (simp add: play_def and_then_def)
  qed
next
  assume ret: "play e threshold ahead gb s = Return st'"
  have msg: "(\<forall>nm sz lt st. \<exists>es.
      events (snd (allocate e nm sz lt (st :: play_state))) = events st @ es \<and>
      no_oom es = fst (allocate e nm sz lt st))"
    by (intro allI allocate_oom_message)
  have full: "(plot e \<longrightarrow>
      (\<forall>M F.
         returned (play (e\<lparr>max_mem := M, float_sub := F\<rparr>) threshold ahead gb s) \<and>
         mem_traces (state_of (play (e\<lparr>max_mem := M, float_sub := F\<rparr>) threshold ahead gb s)) =
           mem_traces st' \<and>
         mem (state_of (play (e\<lparr>max_mem := M, float_sub := F\<rparr>) threshold ahead gb s)) =
           mem st' \<and>
         ref_counts (state_of (play (e\<lparr>max_mem := M, float_sub := F\<rparr>) threshold ahead gb s)) =
           ref_counts st' \<and>
         used_mem (state_of (play (e\<lparr>max_mem := M, float_sub := F\<rparr>) threshold ahead gb s)) =
           used_mem st' \<and>
         swapouts (state_of (play (e\<lparr>max_mem := M, float_sub := F\<rparr>) threshold ahead gb s)) =
           swapouts st'))"
  proof (intro impI allI)
    fix M F
    assume "plot e"
    then show
      "returned (play (e\<lparr>max_mem := M, float_sub := F\<rparr>) threshold ahead gb s) \<and>
       mem_traces (state_of (play (e\<lparr>max_mem := M, float_sub := F\<rparr>) threshold ahead gb s)) =
         mem_traces st' \<and>
       mem (state_of (play (e\<lparr>max_mem := M, float_sub := F\<rparr>) threshold ahead gb s)) =
         mem st' \<and>
       ref_counts (state_of (play (e\<lparr>max_mem := M, float_sub := F\<rparr>) threshold ahead gb s)) =
         ref_counts st' \<and>
       used_mem (state_of (play (e\<lparr>max_mem := M, float_sub := F\<rparr>) threshold ahead gb s)) =
         used_mem st' \<and>
       swapouts (state_of (play (e\<lparr>max_mem := M, float_sub := F\<rparr>) threshold ahead gb s)) =
         swapouts st'"
      using ret by (rule ff_play_fields)
  qed
  show "(\<forall>nm sz lt st. \<exists>es.
      events (snd (allocate e nm sz lt (st :: play_state))) = events st @ es \<and>
      no_oom es = fst (allocate e nm sz lt st)) \<and>
    (plot e \<longrightarrow>
      (\<forall>M F.
         returned (play (e\<lparr>max_mem := M, float_sub := F\<rparr>) threshold ahead gb s) \<and>
         mem_traces (state_of (play (e\<lparr>max_mem := M, float_sub := F\<rparr>) threshold ahead gb s)) =
           mem_traces st' \<and>
         mem (state_of (play (e\<lparr>max_mem := M, float_sub := F\<rparr>) threshold ahead gb s)) =
           mem st' \<and>
         ref_counts (state_of (play (e\<lparr>max_mem := M, float_sub := F\<rparr>) threshold ahead gb s)) =
           ref_counts st' \<and>
         used_mem (state_of (play (e\<lparr>max_mem := M, float_sub := F\<rparr>) threshold ahead gb s)) =
           used_mem st' \<and>
         swapouts (state_of (play (e\<lparr>max_mem := M, float_sub := F\<rparr>) threshold ahead gb s)) =
           swapouts st'))"
    using msg full by (rule conjI)
qed

theorem play_fails_iff_allocate_failed_witness:
  "play (env_abc\<lparr>max_mem := 105\<rparr>) 1 0 0 sim0 =
     Return (state_of (play (env_abc\<lparr>max_mem := 105\<rparr>) 1 0 0 sim0)) \<and>
   \<not> plot (env_abc\<lparr>max_mem := 105\<rparr>) \<and>
   \<not> passed (state_of (play (env_abc\<lparr>max_mem := 105\<rparr>) 1 0 0 sim0)) \<and>
   (\<exists>es0 m. events (state_of (play (env_abc\<lparr>max_mem := 105\<rparr>) 1 0 0 sim0)) = es0 @ [m] \<and>
      is_oom m \<and> no_oom es0) \<and>
   play (env_abc\<lparr>max_mem := 105, plot := True\<rparr>) 1 0 0 sim0 =
     Return (state_of (play (env_abc\<lparr>max_mem := 105, plot := True\<rparr>) 1 0 0 sim0)) \<and>
   \<not> passed (state_of (play (env_abc\<lparr>max_mem := 105, plot := True\<rparr>) 1 0 0 sim0)) \<and>
   levels_of (events (state_of (play (env_abc\<lparr>max_mem := 105, plot := True\<rparr>) 1 0 0 sim0))) =
     [0..<3] \<and>
   mem_traces (state_of (play (env_abc\<lparr>max_mem := 105, plot := True\<rparr>) 1 0 0 sim0)) =
     [100, 107, 7, 107, 100, 0] \<and>
   passed (state_of (play (env_abc\<lparr>max_mem := 105, plot := True\<rparr>
                             \<lparr>max_mem := 1000, float_sub := (\<lambda>c u. c - real_of_int u)\<rparr>)
                        1 0 0 sim0)) \<and>
   mem_traces (state_of (play (env_abc\<lparr>max_mem := 105, plot := True\<rparr>
                                 \<lparr>max_mem := 1000, float_sub := (\<lambda>c u. c - real_of_int u)\<rparr>)
                            1 0 0 sim0)) =
     mem_traces (state_of (play (env_abc\<lparr>max_mem := 105, plot := True\<rparr>) 1 0 0 sim0))"
proof -
  let ?e1 = "env_abc\<lparr>max_mem := 105\<rparr>" and ?e2 = "env_abc\<lparr>max_mem := 105, plot := True\<rparr>"
  let ?e3 = "?e2\<lparr>max_mem := 1000, float_sub := (\<lambda>c u. c - real_of_int u)\<rparr>"
  have r1: "returned (play ?e1 1 0 0 sim0)" by code_simp
  have r2: "returned (play ?e2 1 0 0 sim0)" by code_simp
  have h1: "play ?e1 1 0 0 sim0 = Return (state_of (play ?e1 1 0 0 sim0))"
    using r1 by (rule returned_eq)
  have h2: "play ?e2 1 0 0 sim0 = Return (state_of (play ?e2 1 0 0 sim0))"
    using r2 by (rule returned_eq)
  have np1: "\<not> passed (state_of (play ?e1 1 0 0 sim0))" by code_simp
  have np2: "\<not> passed (state_of (play ?e2 1 0 0 sim0))" by code_simp
  have tr2: "mem_traces (state_of (play ?e2 1 0 0 sim0)) = [100, 107, 7, 107, 100, 0]"
    by code_simp
  have p3: "passed (state_of (play ?e3 1 0 0 sim0))" by code_simp
  have p1: "\<not> plot ?e1" by (simp add: env_abc_def)
  have p2: "plot ?e2" "topo_size ?e2 = 3" by (simp_all add: env_abc_def)
  have ev0: "events sim0 = []" by (simp add: sim0_def)
  note w1 = play_fails_iff_allocate_failed [OF h1]
  note w2 = play_fails_iff_allocate_failed [OF h2]
  from conjunct1 [OF w1] p1 np1 ev0
  have c1: "\<exists>es0 m. events (state_of (play ?e1 1 0 0 sim0)) = es0 @ [m] \<and> is_oom m \<and> no_oom es0"
    by auto
  from conjunct1 [OF w2] p2 ev0
  have c2: "levels_of (events (state_of (play ?e2 1 0 0 sim0))) = [0..<3]"
    by auto
  from conjunct2 [OF conjunct2 [OF w2]] p2(1)
  have c3: "mem_traces (state_of (play ?e3 1 0 0 sim0)) =
            mem_traces (state_of (play ?e2 1 0 0 sim0))"
    by blast
  show ?thesis
    by (intro conjI h1 h2 p1 np1 np2 c1 c2 c3 tr2 p3)
qed

section \<open>The swap-out decision\<close>

lemma dest_ops_of_set:
  "set (dest_ops_of e th opr ts) =
     {d \<in> set (t_consumers ts). th < distance e (op_name opr) d} - set (excl_dest_ops e)"
  by (auto simp add: dest_ops_of_def)

lemma dest_ops_of_distinct: "distinct (dest_ops_of e th opr ts)"
  by (simp add: dest_ops_of_def)

lemma dest_ops_of_length:
  "length (dest_ops_of e th opr ts) =
     card ({d \<in> set (t_consumers ts). th < distance e (op_name opr) d} - set (excl_dest_ops e))"
  using distinct_card [OF dest_ops_of_distinct, of e th opr ts]
  by (simp add: dest_ops_of_set)

lemma fold_add_swapin_fields:
  "swapouts (fold (add_swapin e ah tsn sz) gs st) = swapouts st"
  "ref_counts (fold (add_swapin e ah tsn sz) gs st) = ref_counts st"
  by (induction gs arbitrary: st) (simp_all add: add_swapin_def Let_def split: option.splits)

lemma set_set_add: "set (set_add x xs) = insert x (set xs)"
  by (auto simp add: set_add_def)

text \<open>One pass of the loop body, when it falls through.\<close>

lemma swap_out_Next:
  assumes "swap_out e th ah gb k opr ts st = Next st'"
  shows "set (swapouts st') =
           (if evicts e th opr ts then insert (t_name ts) (set (swapouts st))
            else set (swapouts st))"
    and "evicts e th opr ts \<Longrightarrow>
           \<exists>c. map_of (ref_counts st) (t_name ts) = Some c \<and>
               map_of (ref_counts st') (t_name ts) =
                 Some (c - int (length (dest_ops_of e th opr ts)) + swapout_delay e)"
    and "nm \<noteq> t_name ts \<Longrightarrow> map_of (ref_counts st') nm = map_of (ref_counts st) nm"
  using assms
  by (auto simp add: swap_out_def evicts_def Let_def fold_add_swapin_fields log_info_def
      set_set_add update_conv' split: option.splits if_splits)

lemma swap_out_loop_swapouts:
  assumes "for_each (swap_out e th ah gb k opr) outs st = Next st'"
  shows "set (swapouts st') =
           set (swapouts st) \<union> {t_name t |t. t \<in> set outs \<and> evicts e th opr t}"
  using assms
proof (induction outs arbitrary: st)
  case Nil
  then show ?case by simp
next
  case (Cons t outs)
  from Cons.prems obtain s1 where s1: "swap_out e th ah gb k opr t st = Next s1"
    and rest: "for_each (swap_out e th ah gb k opr) outs s1 = Next st'"
    by (cases "swap_out e th ah gb k opr t st") simp_all
  have "set (swapouts st') =
          set (swapouts s1) \<union> {t_name t |t. t \<in> set outs \<and> evicts e th opr t}"
    using rest by (rule Cons.IH)
  then show ?case using swap_out_Next(1) [OF s1] by auto
qed

lemma swap_out_loop_frame:
  assumes "for_each (swap_out e th ah gb k opr) outs st = Next st'"
    and "nm \<notin> t_name ` set outs"
  shows "map_of (ref_counts st') nm = map_of (ref_counts st) nm"
  using assms
proof (induction outs arbitrary: st)
  case Nil
  then show ?case by simp
next
  case (Cons t outs)
  from Cons.prems(1) obtain s1 where s1: "swap_out e th ah gb k opr t st = Next s1"
    and rest: "for_each (swap_out e th ah gb k opr) outs s1 = Next st'"
    by (cases "swap_out e th ah gb k opr t st") simp_all
  have "map_of (ref_counts s1) nm = map_of (ref_counts st) nm"
    using swap_out_Next(3) [OF s1, of nm] Cons.prems(2) by auto
  moreover have "map_of (ref_counts st') nm = map_of (ref_counts s1) nm"
    using rest Cons.prems(2) by (intro Cons.IH) auto
  ultimately show ?case by simp
qed

lemma swap_out_loop_ref_count:
  assumes "for_each (swap_out e th ah gb k opr) outs st = Next st'"
    and "distinct (map t_name outs)" "ts \<in> set outs" "evicts e th opr ts"
  shows "\<exists>c. map_of (ref_counts st) (t_name ts) = Some c \<and>
             map_of (ref_counts st') (t_name ts) =
               Some (c - int (length (dest_ops_of e th opr ts)) + swapout_delay e)"
  using assms(1,2,3)
proof (induction outs arbitrary: st)
  case Nil
  then show ?case by simp
next
  case (Cons t outs)
  from Cons.prems(1) obtain s1 where s1: "swap_out e th ah gb k opr t st = Next s1"
    and rest: "for_each (swap_out e th ah gb k opr) outs s1 = Next st'"
    by (cases "swap_out e th ah gb k opr t st") simp_all
  have d1: "t_name t \<notin> t_name ` set outs" and d2: "distinct (map t_name outs)"
    using Cons.prems(2) by simp_all
  show ?case
  proof (cases "t = ts")
    case True
    have s1': "swap_out e th ah gb k opr ts st = Next s1" using s1 True by simp
    have "t_name ts \<notin> t_name ` set outs" using d1 True by simp
    with rest have fr: "map_of (ref_counts st') (t_name ts) = map_of (ref_counts s1) (t_name ts)"
      by (rule swap_out_loop_frame)
    obtain c where c: "map_of (ref_counts st) (t_name ts) = Some c"
      "map_of (ref_counts s1) (t_name ts) =
         Some (c - int (length (dest_ops_of e th opr ts)) + swapout_delay e)"
      using swap_out_Next(2) [OF s1' assms(4)] by blast
    show ?thesis
      by (rule exI [of _ c]) (simp only: c fr simp_thms)
  next
    case False
    then have in_rest: "ts \<in> set outs" using Cons.prems(3) by simp
    then have "t_name ts \<in> t_name ` set outs" by (rule imageI)
    then have ne: "t_name ts \<noteq> t_name t" using d1 by (metis)
    have keep: "map_of (ref_counts s1) (t_name ts) = map_of (ref_counts st) (t_name ts)"
      using s1 ne by (rule swap_out_Next(3))
    obtain c where c: "map_of (ref_counts s1) (t_name ts) = Some c"
      "map_of (ref_counts st') (t_name ts) =
         Some (c - int (length (dest_ops_of e th opr ts)) + swapout_delay e)"
      using Cons.IH [OF rest d2 in_rest] by blast
    show ?thesis
      by (rule exI [of _ c]) (simp only: c keep [symmetric] simp_thms)
  qed
qed

lemma evicts_iff:
  "evicts e th opr ts =
     ((\<exists>n. t_ndims ts = Some n \<and> 1 < n) \<and>
      {d \<in> set (t_consumers ts). th < distance e (op_name opr) d} - set (excl_dest_ops e) \<noteq> {})"
  unfolding evicts_def dest_ops_of_set [symmetric]
  by (auto split: option.splits)

text \<open>
  Claim C4. Let the swap-out section of an operation run to its end on outputs with
  distinct names, and let \<open>ts\<close> be one of them, not recorded as swapped out before.
  Then \<open>ts\<close> is recorded as swapped out exactly if its rank is known and above 1, the
  operation is not an excluded source, and some consumer at distance above the
  threshold is not an excluded destination. When it is recorded, its reference count
  is the count it had before, minus the number of those consumers, plus
  \<^verbatim>\<open>_swapout_delay\<close>.
\<close>

theorem swap_out_decision:
  "swap_out_all e threshold ahead gb k opr outs st = Next st' \<Longrightarrow>
   distinct (map t_name outs) \<Longrightarrow> ts \<in> set outs \<Longrightarrow> t_name ts \<notin> set (swapouts st) \<Longrightarrow>
   ((t_name ts \<in> set (swapouts st')) =
      ((\<exists>n. t_ndims ts = Some n \<and> 1 < n) \<and>
       op_name opr \<notin> set (excl_src_ops e) \<and>
       {d \<in> set (t_consumers ts). threshold < distance e (op_name opr) d} -
         set (excl_dest_ops e) \<noteq> {})) \<and>
   (t_name ts \<in> set (swapouts st') \<longrightarrow>
      (\<exists>c. map_of (ref_counts st) (t_name ts) = Some c \<and>
           map_of (ref_counts st') (t_name ts) =
             Some (c -
                   int (card ({d \<in> set (t_consumers ts).
                                threshold < distance e (op_name opr) d} -
                              set (excl_dest_ops e))) +
                   swapout_delay e)))"
proof -
  assume run: "swap_out_all e threshold ahead gb k opr outs st = Next st'"
    and dist: "distinct (map t_name outs)" and mem: "ts \<in> set outs"
    and fresh: "t_name ts \<notin> set (swapouts st)"
  show ?thesis
  proof (cases "op_name opr \<in> set (excl_src_ops e)")
    case True
    then have "st' = st" using run by (simp add: swap_out_all_def)
    then show ?thesis using True fresh by simp
  next
    case False
    then have loop: "for_each (swap_out e threshold ahead gb k opr) outs st = Next st'"
      using run by (simp add: swap_out_all_def)
    have uniq: "t = ts" if "t \<in> set outs" "t_name t = t_name ts" for t
      using that dist mem by (meson distinct_map inj_onD)
    have S: "set (swapouts st') =
               set (swapouts st) \<union> {t_name t |t. t \<in> set outs \<and> evicts e threshold opr t}"
      using loop by (rule swap_out_loop_swapouts)
    have rec: "(t_name ts \<in> set (swapouts st')) = evicts e threshold opr ts"
    proof
      assume "t_name ts \<in> set (swapouts st')"
      then obtain t where "t \<in> set outs" "t_name t = t_name ts" "evicts e threshold opr t"
        using S fresh by auto
      then show "evicts e threshold opr ts" using uniq [of t] by simp
    next
      assume "evicts e threshold opr ts"
      then show "t_name ts \<in> set (swapouts st')" using S mem by blast
    qed
    have cnt: "\<exists>c. map_of (ref_counts st) (t_name ts) = Some c \<and>
             map_of (ref_counts st') (t_name ts) =
               Some (c - int (length (dest_ops_of e threshold opr ts)) + swapout_delay e)"
      if "evicts e threshold opr ts"
      using loop dist mem that by (rule swap_out_loop_ref_count)
    have rec': "(t_name ts \<in> set (swapouts st')) =
      ((\<exists>n. t_ndims ts = Some n \<and> 1 < n) \<and>
       op_name opr \<notin> set (excl_src_ops e) \<and>
       {d \<in> set (t_consumers ts). threshold < distance e (op_name opr) d} -
         set (excl_dest_ops e) \<noteq> {})"
      using rec False by (simp add: evicts_iff)
    have cnt': "\<exists>c. map_of (ref_counts st) (t_name ts) = Some c \<and>
           map_of (ref_counts st') (t_name ts) =
             Some (c -
                   int (card ({d \<in> set (t_consumers ts).
                                threshold < distance e (op_name opr) d} -
                              set (excl_dest_ops e))) +
                   swapout_delay e)"
      if "t_name ts \<in> set (swapouts st')"
      using cnt [OF iffD1 [OF rec that]] by (simp only: dest_ops_of_length)
    show ?thesis
    proof (intro conjI impI)
      show "(t_name ts \<in> set (swapouts st')) =
        ((\<exists>n. t_ndims ts = Some n \<and> 1 < n) \<and>
         op_name opr \<notin> set (excl_src_ops e) \<and>
         {d \<in> set (t_consumers ts). threshold < distance e (op_name opr) d} -
           set (excl_dest_ops e) \<noteq> {})"
        by (rule rec')
      show "\<exists>c. map_of (ref_counts st) (t_name ts) = Some c \<and>
           map_of (ref_counts st') (t_name ts) =
             Some (c -
                   int (card ({d \<in> set (t_consumers ts).
                                threshold < distance e (op_name opr) d} -
                              set (excl_dest_ops e))) +
                   swapout_delay e)"
        if "t_name ts \<in> set (swapouts st')"
        using that by (rule cnt')
    qed
  qed
qed

lemma unfinished_eq: "\<not> finished r \<Longrightarrow> r = Next (state_of r)"
  by (cases r) simp_all

theorem swap_out_decision_witness:
  "swap_out_all env_abc 1 0 0 0 op_a [ts_a] st_abc_a =
     Next (state_of (swap_out_all env_abc 1 0 0 0 op_a [ts_a] st_abc_a)) \<and>
   distinct (map t_name [ts_a]) \<and> ts_a \<in> set [ts_a] \<and>
   t_name ts_a \<notin> set (swapouts st_abc_a) \<and>
   t_name ts_a \<in> set (swapouts (state_of (swap_out_all env_abc 1 0 0 0 op_a [ts_a] st_abc_a))) \<and>
   (\<exists>c. map_of (ref_counts st_abc_a) (t_name ts_a) = Some c \<and>
        map_of (ref_counts (state_of (swap_out_all env_abc 1 0 0 0 op_a [ts_a] st_abc_a)))
          (t_name ts_a) =
        Some (c -
              int (card ({d \<in> set (t_consumers ts_a). 1 < distance env_abc (op_name op_a) d} -
                         set (excl_dest_ops env_abc))) +
              swapout_delay env_abc)) \<and>
   map_of (ref_counts st_abc_a) (t_name ts_a) = Some 1 \<and>
   map_of (ref_counts (state_of (swap_out_all env_abc 1 0 0 0 op_a [ts_a] st_abc_a)))
     (t_name ts_a) = Some 1"
proof -
  let ?r = "swap_out_all env_abc 1 0 0 0 op_a [ts_a] st_abc_a"
  let ?D = "{d \<in> set (t_consumers ts_a). 1 < distance env_abc (op_name op_a) d} -
              set (excl_dest_ops env_abc)"
  have "\<not> finished ?r" by code_simp
  then have h1: "?r = Next (state_of ?r)" by (rule unfinished_eq)
  have h2: "distinct (map t_name [ts_a])" by simp
  have h3: "ts_a \<in> set [ts_a]" by simp
  have h4: "t_name ts_a \<notin> set (swapouts st_abc_a)" by code_simp
  have c0: "map_of (ref_counts st_abc_a) (t_name ts_a) = Some 1" by code_simp
  have c2: "map_of (ref_counts (state_of ?r)) (t_name ts_a) = Some 1" by code_simp
  have ev: "(\<exists>n. t_ndims ts_a = Some n \<and> 1 < n) \<and>
            op_name op_a \<notin> set (excl_src_ops env_abc) \<and> ?D \<noteq> {}"
    by (auto simp add: ts_a_def op_a_def env_abc_def lvl_abc_def)
  note w = swap_out_decision [OF h1 h2 h3 h4]
  have c1: "t_name ts_a \<in> set (swapouts (state_of ?r))"
    by (rule iffD2 [OF conjunct1 [OF w]]) (rule ev)
  have c3: "\<exists>c. map_of (ref_counts st_abc_a) (t_name ts_a) = Some c \<and>
        map_of (ref_counts (state_of ?r)) (t_name ts_a) =
        Some (c - int (card ?D) + swapout_delay env_abc)"
    by (rule mp [OF conjunct2 [OF w] c1])
  show ?thesis
    by (intro conjI h1 h2 h3 h4 c0 c1 c2 c3)
qed

section \<open>The swap-in queue\<close>

subsection \<open>The run does not read the queue of a level it does not start\<close>






















subsection \<open>What a level materializes\<close>




















subsection \<open>Where a swap-in tuple is queued\<close>






lemma upt_Suc_not_below: "k' \<in> set [Suc k..<n] \<Longrightarrow> j \<le> int k \<Longrightarrow> int k' \<noteq> j"
  by auto





end
